theory Spec2Isabelle
  imports Complex_Main "HOL-Library.Multiset"
begin

section \<open>Data model\<close>

text \<open>
  The component is written in TypeScript; every \<open>number\<close> of the source is an IEEE double.
  Timestamps (milliseconds) and readings (volts) in the buffers and on the canvas are
  modelled as exact reals: there the arithmetic of the source is taken without rounding,
  overflow or NaN. The vertical scale is modelled twice: \<open>yScale\<close> over the reals, the
  formula as the redraw uses it, and \<open>yScale_double\<close> over binary64 values, with the
  rounding of every operation. Array indices and
  lengths are natural numbers; the one place where the source can produce NaN from
  them (\<open>% 0\<close>) is modelled with its own index type below.
\<close>

record Sample =
  timestamp :: real
  "value" :: real

datatype error = SyntaxError | TypeError | RangeError

definition SAMPLE_RATE :: real where
  "SAMPLE_RATE = 250"

definition WINDOW_DURATION :: real where
  "WINDOW_DURATION = 2000"

definition WINDOW_SIZE :: nat where
  "WINDOW_SIZE = nat \<lceil>(SAMPLE_RATE * WINDOW_DURATION) / 1000\<rceil>"

definition GRAPH_HEIGHT :: real where
  "GRAPH_HEIGHT = 100"

definition GRAPH_WIDTH :: real where
  "GRAPH_WIDTH = 400"

definition CHANNEL_COLORS :: "string list" where
  "CHANNEL_COLORS = [''#2196f3'', ''#4caf50'', ''#f44336'', ''#9c27b0'']"

section \<open>The ring buffer\<close>

text \<open>
  \<open>pointer\<close> is a JavaScript number that the class only ever sets to \<open>0\<close> or to
  \<open>(pointer + 1) % capacity\<close>: a natural number, or NaN once the capacity is \<open>0\<close>.
\<close>

datatype index = Finite nat | NaN

text \<open>\<open>a % b\<close> on non-negative integers: NaN when the divisor is \<open>0\<close>.\<close>

definition js_rem :: "nat \<Rightarrow> nat \<Rightarrow> index" where
  "js_rem a b = (if b = 0 then NaN else Finite (a mod b))"

text \<open>
  A slot of a JavaScript array holds an element or is empty (a hole, read as
  \<open>undefined\<close>): \<open>None\<close> is the hole. The assignment \<open>xs[i] = v\<close> overwrites a slot in
  range and otherwise grows the array to length \<open>i + 1\<close>, leaving holes in between.
\<close>

definition js_store :: "'a option list \<Rightarrow> nat \<Rightarrow> 'a \<Rightarrow> 'a option list" where
  "js_store xs i v =
     (if i < length xs then xs[i := Some v]
      else xs @ replicate (i - length xs) None @ [Some v])"

record RingBuffer =
  buffer :: "Sample option list"
  pointer :: index
  capacity :: nat

text \<open>
  The constructor: \<open>new Array(capacity)\<close> raises a RangeError unless \<open>capacity\<close> is an
  integer in \<open>[0, 2^32 - 1]\<close> (a negative or fractional capacity constructs nothing and is
  excluded by the type \<open>nat\<close>); \<open>fill\<close> then puts the placeholder sample in every slot.
\<close>

definition RingBuffer_new :: "nat \<Rightarrow> error + RingBuffer" where
  "RingBuffer_new c =
     (if c < 2 ^ 32
      then Inr \<lparr>buffer = replicate c (Some \<lparr>timestamp = 0, value = 0\<rparr>),
                pointer = Finite 0, capacity = c\<rparr>
      else Inl RangeError)"

text \<open>
  \<open>push\<close>: with a NaN pointer, \<open>this.buffer[NaN] = sample\<close> sets the property named
  "NaN" of the array object (no slot changes, the length stays) and
  \<open>(NaN + 1) % capacity\<close> is NaN again.
\<close>

definition push :: "RingBuffer \<Rightarrow> Sample \<Rightarrow> RingBuffer" where
  "push rb sample =
     (case pointer rb of
        Finite p \<Rightarrow>
          rb\<lparr>buffer := js_store (buffer rb) p sample,
             pointer := js_rem (p + 1) (capacity rb)\<rparr>
      | NaN \<Rightarrow> rb\<lparr>pointer := NaN\<rparr>)"

text \<open>
  \<open>getArray\<close>: \<open>slice(p)\<close> is empty for \<open>p\<close> beyond the length and \<open>slice(0, p)\<close> stops at
  the length, as \<open>drop\<close> and \<open>take\<close> do; a NaN bound counts as \<open>0\<close>.
\<close>

definition getArray :: "RingBuffer \<Rightarrow> Sample option list" where
  "getArray rb =
     (case pointer rb of
        Finite p \<Rightarrow> drop p (buffer rb) @ take p (buffer rb)
      | NaN \<Rightarrow> drop 0 (buffer rb) @ take 0 (buffer rb))"

section \<open>The component state\<close>

text \<open>
  \<open>dataRef\<close> holds the ring buffers, one per channel; \<open>canvasRefs\<close> records, per canvas
  slot, whether a canvas is mounted and hands out a 2d context (\<open>null\<close> otherwise);
  \<open>console\<close> is what \<open>console.error\<close> has logged.
\<close>

record state =
  dataRef :: "RingBuffer list"
  canvasRefs :: "bool list"
  lastTimestampRef :: real
  console :: "error list"

text \<open>An array read \<open>xs[i]\<close>: \<open>undefined\<close> (here \<open>None\<close>) out of range.\<close>

definition js_nth :: "'a list \<Rightarrow> nat \<Rightarrow> 'a option" where
  "js_nth xs i = (if i < length xs then Some (xs ! i) else None)"

text \<open>
  The state after the first render, before any canvas is mounted:
  \<open>Array(4).fill(null).map(() => new RingBuffer(WINDOW_SIZE))\<close>, four \<open>null\<close> canvas
  references, and the clock reading \<open>now\<close> in \<open>lastTimestampRef\<close>.
\<close>

definition initial_state :: "real \<Rightarrow> error + state" where
  "initial_state now =
     (case RingBuffer_new WINDOW_SIZE of
        Inl e \<Rightarrow> Inl e
      | Inr rb \<Rightarrow>
          Inr \<lparr>dataRef = replicate 4 rb, canvasRefs = replicate 4 False,
               lastTimestampRef = now, console = []\<rparr>)"

section \<open>The vertical scale\<close>

definition yScale :: "real \<Rightarrow> real" where
  "yScale v =
     (let min = - 1.5; max = 1.5
      in GRAPH_HEIGHT - ((v - min) / (max - min) * GRAPH_HEIGHT))"

section \<open>Double-precision arithmetic\<close>

text \<open>
  A \<open>number\<close> of the source is a binary64 value: a real with a significand of 53 bits and
  an exponent from \<open>-1022\<close> to \<open>1023\<close>, the negative zero, one of the two infinities, or
  NaN. \<open>Number r\<close> is the double of value \<open>r\<close>. An arithmetic operation of the language is
  the exact operation followed by rounding to the nearest double, a tie going to the
  even significand, with gradual underflow and with overflow to an infinity. Not every
  real is the value of a double (those are the reals that \<open>round64\<close> leaves as they
  are); what is proved below of \<open>Number r\<close> holds for every real \<open>r\<close>.
\<close>

datatype double = Number real | NegZero | PlusInfinity | MinusInfinity | NotANumber

text \<open>The nearest integer, a tie going to the even one.\<close>

definition round_half_even :: "real \<Rightarrow> int" where
  "round_half_even q =
     (let f = \<lfloor>q\<rfloor>; d = q - of_int f
      in if d < 1 / 2 then f else if 1 / 2 < d then f + 1 else if even f then f else f + 1)"

text \<open>
  The binary exponent of a positive real, kept within the format: \<open>e\<close> with
  \<open>2 powi e \<le> a < 2 powi (e + 1)\<close>, but \<open>-1022\<close> for every subnormal magnitude and \<open>1024\<close>
  from \<open>2 ^ 1024\<close> on. It is found by halving or doubling, at most \<open>1024\<close> times.
\<close>

function up_exp :: "real \<Rightarrow> int \<Rightarrow> int" where
  "up_exp a e = (if 2 \<le> a \<and> e < 1024 then up_exp (a / 2) (e + 1) else e)"
  by pat_completeness auto
termination
  by (relation "measure (\<lambda>(a, e). nat (1024 - e))") auto

function down_exp :: "real \<Rightarrow> int \<Rightarrow> int" where
  "down_exp a e = (if a < 1 \<and> - 1022 < e then down_exp (2 * a) (e - 1) else e)"
  by pat_completeness auto
termination
  by (relation "measure (\<lambda>(a, e). nat (e + 1022))") auto

definition exponent :: "real \<Rightarrow> int" where
  "exponent a = (if 1 \<le> a then up_exp a 0 else down_exp a 0)"

text \<open>
  Rounding a positive magnitude to a multiple of the unit in the last place of its
  binade, and a real to a double.
\<close>

definition round_magnitude :: "real \<Rightarrow> real" where
  "round_magnitude a =
     (let ulp = 2 powi (exponent a - 52)
      in of_int (round_half_even (a / ulp)) * ulp)"

definition round64 :: "real \<Rightarrow> double" where
  "round64 r =
     (if r = 0 then Number 0
      else let m = round_magnitude \<bar>r\<bar> in
        if 2 ^ 1024 \<le> m then (if r < 0 then MinusInfinity else PlusInfinity)
        else if m = 0 then (if r < 0 then NegZero else Number 0)
        else Number (if r < 0 then - m else m))"

text \<open>The real value of a finite double (\<open>0\<close> for the others) and the sign bit.\<close>

fun val :: "double \<Rightarrow> real" where
  "val (Number r) = r"
| "val d = 0"

definition is_zero :: "double \<Rightarrow> bool" where
  "is_zero d = (d = Number 0 \<or> d = NegZero)"

definition is_inf :: "double \<Rightarrow> bool" where
  "is_inf d = (d = PlusInfinity \<or> d = MinusInfinity)"

fun negative :: "double \<Rightarrow> bool" where
  "negative (Number r) = (r < 0)"
| "negative NegZero = True"
| "negative MinusInfinity = True"
| "negative d = False"

definition signed_zero :: "bool \<Rightarrow> double" where
  "signed_zero neg = (if neg then NegZero else Number 0)"

definition signed_inf :: "bool \<Rightarrow> double" where
  "signed_inf neg = (if neg then MinusInfinity else PlusInfinity)"

text \<open>
  \<open>a - b\<close>, \<open>a * b\<close> and \<open>a / b\<close> of the language: the exact result rounded, an exact zero
  with the sign the standard gives it.
\<close>

definition sub64 :: "double \<Rightarrow> double \<Rightarrow> double" where
  "sub64 a b =
     (if a = NotANumber \<or> b = NotANumber then NotANumber
      else if a = PlusInfinity then (if b = PlusInfinity then NotANumber else PlusInfinity)
      else if a = MinusInfinity then (if b = MinusInfinity then NotANumber else MinusInfinity)
      else if b = PlusInfinity then MinusInfinity
      else if b = MinusInfinity then PlusInfinity
      else if val a - val b = 0 then (if a = NegZero \<and> b = Number 0 then NegZero else Number 0)
      else round64 (val a - val b))"

definition mul64 :: "double \<Rightarrow> double \<Rightarrow> double" where
  "mul64 a b =
     (if a = NotANumber \<or> b = NotANumber then NotANumber
      else if is_inf a \<or> is_inf b
        then (if is_zero a \<or> is_zero b then NotANumber
              else signed_inf (negative a \<noteq> negative b))
      else if val a * val b = 0 then signed_zero (negative a \<noteq> negative b)
      else round64 (val a * val b))"

definition div64 :: "double \<Rightarrow> double \<Rightarrow> double" where
  "div64 a b =
     (if a = NotANumber \<or> b = NotANumber then NotANumber
      else if is_inf a
        then (if is_inf b then NotANumber else signed_inf (negative a \<noteq> negative b))
      else if is_inf b then signed_zero (negative a \<noteq> negative b)
      else if is_zero b
        then (if is_zero a then NotANumber else signed_inf (negative a \<noteq> negative b))
      else if val a = 0 then signed_zero (negative a \<noteq> negative b)
      else round64 (val a / val b))"

text \<open>\<open>a <= b\<close> and \<open>a < b\<close> of the language: false when an operand is NaN.\<close>

definition js_le :: "double \<Rightarrow> double \<Rightarrow> bool" where
  "js_le a b =
     (if a = NotANumber \<or> b = NotANumber then False
      else if a = MinusInfinity \<or> b = PlusInfinity then True
      else if a = PlusInfinity \<or> b = MinusInfinity then False
      else val a \<le> val b)"

definition js_lt :: "double \<Rightarrow> double \<Rightarrow> bool" where
  "js_lt a b =
     (if a = NotANumber \<or> b = NotANumber then False
      else if a = PlusInfinity \<or> b = MinusInfinity then False
      else if a = MinusInfinity \<or> b = PlusInfinity then True
      else val a < val b)"

text \<open>
  \<open>yScale\<close> as the source evaluates it,
  \<open>GRAPH_HEIGHT - ((value - min) / (max - min) * GRAPH_HEIGHT)\<close>, every operation rounded.
\<close>

definition yScale_double :: "double \<Rightarrow> double" where
  "yScale_double v =
     (let min = Number (- 1.5); max = Number 1.5
      in sub64 (Number GRAPH_HEIGHT)
           (mul64 (div64 (sub64 v min) (sub64 max min)) (Number GRAPH_HEIGHT)))"

text \<open>A double that is neither an infinity nor NaN.\<close>

definition finite_double :: "double \<Rightarrow> bool" where
  "finite_double d = (d \<noteq> PlusInfinity \<and> d \<noteq> MinusInfinity \<and> d \<noteq> NotANumber)"

section \<open>The message handler\<close>

text \<open>
  \<open>event.data\<close> is modelled by what \<open>JSON.parse\<close> makes of it and by how far the value
  has the shape of an \<open>EegBatchData\<close>:
  \<^item> \<open>Unparseable\<close>: \<open>JSON.parse\<close> raises a SyntaxError;
  \<^item> \<open>NoChannels\<close>: the value is \<open>null\<close>, a scalar, an array, or an object whose
    \<open>channels\<close> is missing or not an array, so that \<open>data.channels.forEach\<close> raises a
    TypeError;
  \<^item> \<open>Batch channels timestamp\<close>: an object with an array \<open>channels\<close> and a number
    \<open>timestamp\<close>. An entry of \<open>channels\<close> is an array of numbers or something that has no
    \<open>forEach\<close> (\<open>NotAnArray\<close>).
  Values whose timestamp or readings are not numbers are outside the model.
\<close>

datatype channel = NumberArray "real list" | NotAnArray

datatype payload = Unparseable | NoChannels | Batch "channel list" real

definition sampleInterval :: real where
  "sampleInterval = 1000 / SAMPLE_RATE"

text \<open>
  The inner \<open>channel.forEach((value, i) => ...)\<close>. \<open>dataRef.current[channelIndex]\<close> is
  \<open>undefined\<close> for an index without a buffer, and calling \<open>push\<close> on it raises a
  TypeError; what was pushed before stays pushed. A function returns the error it
  raised, if any, with the state at that moment.
\<close>

fun channel_forEach :: "real \<Rightarrow> nat \<Rightarrow> nat \<Rightarrow> real list \<Rightarrow> state \<Rightarrow> error option \<times> state" where
  "channel_forEach t channelIndex i [] st = (None, st)"
| "channel_forEach t channelIndex i (v # vs) st =
     (case js_nth (dataRef st) channelIndex of
        None \<Rightarrow> (Some TypeError, st)
      | Some rb \<Rightarrow>
          channel_forEach t channelIndex (Suc i) vs
            (st\<lparr>dataRef := (dataRef st)
               [channelIndex := push rb \<lparr>timestamp = t + real i * sampleInterval, value = v\<rparr>]\<rparr>))"

text \<open>The outer \<open>data.channels.forEach((channel, channelIndex) => ...)\<close>.\<close>

fun channels_forEach :: "real \<Rightarrow> nat \<Rightarrow> channel list \<Rightarrow> state \<Rightarrow> error option \<times> state" where
  "channels_forEach t channelIndex [] st = (None, st)"
| "channels_forEach t channelIndex (NotAnArray # cs) st = (Some TypeError, st)"
| "channels_forEach t channelIndex (NumberArray vs # cs) st =
     (case channel_forEach t channelIndex 0 vs st of
        (Some e, st') \<Rightarrow> (Some e, st')
      | (None, st') \<Rightarrow> channels_forEach t (Suc channelIndex) cs st')"

text \<open>The body of the \<open>try\<close>; \<open>now\<close> is the reading of \<open>Date.now()\<close>.\<close>

definition try_block :: "real \<Rightarrow> payload \<Rightarrow> state \<Rightarrow> error option \<times> state" where
  "try_block now msg st =
     (case msg of
        Unparseable \<Rightarrow> (Some SyntaxError, st)
      | NoChannels \<Rightarrow> (Some TypeError, st\<lparr>lastTimestampRef := now\<rparr>)
      | Batch cs t \<Rightarrow> channels_forEach t 0 cs (st\<lparr>lastTimestampRef := now\<rparr>))"

text \<open>
  The function handed to \<open>throttle\<close>: the \<open>try\<close> with its \<open>catch\<close>, which logs the error
  and returns. The source binds the name \<open>handleMessage\<close> to the throttled function;
  here \<open>handleMessage\<close> is the arrow function that is throttled, and \<open>onmessage\<close> in
  the next section is the throttled function, which decides for which socket messages
  this one runs.
\<close>

definition handleMessage :: "real \<Rightarrow> payload \<Rightarrow> state \<Rightarrow> state" where
  "handleMessage now msg st =
     (case try_block now msg st of
        (None, st') \<Rightarrow> st'
      | (Some e, st') \<Rightarrow> st'\<lparr>console := console st' @ [e]\<rparr>)"

section \<open>The throttled listener\<close>

text \<open>
  \<open>ws.onmessage\<close> is not the function above but \<open>throttle\<close> of it with a wait of
  32 ms. \<open>throttle\<close> comes from the package \<open>lodash.throttle\<close>, a dependency whose code is
  not in the repository; the model follows the package's published implementation
  (version 4.1.1): \<open>throttle(func, wait)\<close> is \<open>debounce(func, wait)\<close> with a leading and a
  trailing edge and \<open>maxWait = wait\<close>. A call invokes \<open>func\<close> at once when there was no
  call before, or when \<open>wait\<close> has passed since the latest call or the latest
  invocation. Otherwise the call only replaces the held arguments, so that a held
  message is lost when another call arrives before the timer fires. When the timer
  fires and arguments are held, \<open>func\<close> runs on them.

  Time is the reading of \<open>Date.now()\<close>, carried by every event; the handler is given the
  time of the event that invokes it.
\<close>

definition wait :: real where
  "wait = 32"

definition maxWait :: real where
  "maxWait = max wait wait"

text \<open>
  The component together with the closure of the throttle: the arguments and the time
  of the latest call, the time of the latest invocation of the handler, the timer the
  closure holds, and the due times of all timers that are set (the package does not
  clear a timer it replaces).
\<close>

record system =
  component :: state
  lastArgs :: "payload option"
  lastCallTime :: "real option"
  lastInvokeTime :: real
  timerId :: "real option"
  timers :: "real list"

definition initial_system :: "real \<Rightarrow> error + system" where
  "initial_system now =
     (case initial_state now of
        Inl e \<Rightarrow> Inl e
      | Inr st \<Rightarrow>
          Inr \<lparr>component = st, lastArgs = None, lastCallTime = None, lastInvokeTime = 0,
               timerId = None, timers = []\<rparr>)"

text \<open>
  The functions of the closure, under their names in the package. \<open>invokeFunc\<close> applies
  the handler to the held arguments; applied to none, the handler would read
  \<open>event.data\<close> of \<open>undefined\<close> inside its \<open>try\<close>.
\<close>

definition shouldInvoke :: "system \<Rightarrow> real \<Rightarrow> bool" where
  "shouldInvoke s time =
     (case lastCallTime s of
        None \<Rightarrow> True
      | Some lastCall \<Rightarrow>
          time - lastCall \<ge> wait \<or> time - lastCall < 0 \<or> time - lastInvokeTime s \<ge> maxWait)"

definition invokeFunc :: "real \<Rightarrow> system \<Rightarrow> system" where
  "invokeFunc time s =
     (let args = lastArgs s; s' = s\<lparr>lastArgs := None, lastInvokeTime := time\<rparr>
      in case args of
           Some msg \<Rightarrow> s'\<lparr>component := handleMessage time msg (component s')\<rparr>
         | None \<Rightarrow> s'\<lparr>component := (component s')
                       \<lparr>console := console (component s') @ [TypeError]\<rparr>\<rparr>)"

definition setTimeout :: "real \<Rightarrow> real \<Rightarrow> system \<Rightarrow> system" where
  "setTimeout time delay s =
     s\<lparr>timerId := Some (time + delay), timers := timers s @ [time + delay]\<rparr>"

definition leadingEdge :: "real \<Rightarrow> system \<Rightarrow> system" where
  "leadingEdge time s = invokeFunc time (setTimeout time wait (s\<lparr>lastInvokeTime := time\<rparr>))"

definition remainingWait :: "system \<Rightarrow> real \<Rightarrow> real" where
  "remainingWait s time =
     (case lastCallTime s of
        None \<Rightarrow> 0
      | Some lastCall \<Rightarrow>
          min (wait - (time - lastCall)) (maxWait - (time - lastInvokeTime s)))"

definition trailingEdge :: "real \<Rightarrow> system \<Rightarrow> system" where
  "trailingEdge time s =
     (let s' = s\<lparr>timerId := None\<rparr>
      in if lastArgs s' \<noteq> None then invokeFunc time s' else s'\<lparr>lastArgs := None\<rparr>)"

definition timerExpired :: "real \<Rightarrow> system \<Rightarrow> system" where
  "timerExpired time s =
     (if shouldInvoke s time then trailingEdge time s
      else setTimeout time (remainingWait s time) s)"

text \<open>The throttled function, which is \<open>ws.onmessage\<close>: one call per socket message.\<close>

definition onmessage :: "real \<Rightarrow> payload \<Rightarrow> system \<Rightarrow> system" where
  "onmessage time msg s =
     (let isInvoking = shouldInvoke s time;
          s' = s\<lparr>lastArgs := Some msg, lastCallTime := Some time\<rparr>
      in if isInvoking
         then (if timerId s' = None then leadingEdge time s'
               else invokeFunc time (setTimeout time wait s'))
         else if timerId s' = None then setTimeout time wait s'
         else s')"

text \<open>
  What happens to the system: a socket message arrives, or the event loop runs the
  timer callback (of the earliest-set timer that is due, when there is one).
\<close>

datatype event = Message real payload | Timeout real

definition step :: "system \<Rightarrow> event \<Rightarrow> system" where
  "step s ev =
     (case ev of
        Message time msg \<Rightarrow> onmessage time msg s
      | Timeout time \<Rightarrow>
          (case filter (\<lambda>due. due \<le> time) (timers s) of
             [] \<Rightarrow> s
           | due # _ \<Rightarrow> timerExpired time (s\<lparr>timers := remove1 due (timers s)\<rparr>)))"

section \<open>The redraw\<close>

datatype canvas_op =
    DrawImage
  | BeginPath
  | StrokeStyle "string option"
  | LineWidth real
  | MoveTo real real
  | LineTo real real
  | Stroke

text \<open>
  \<open>.filter(s => s.timestamp >= startTime && s.timestamp <= now)\<close>: reading \<open>timestamp\<close>
  of \<open>undefined\<close> raises a TypeError.
\<close>

fun filter_window :: "real \<Rightarrow> real \<Rightarrow> Sample option list \<Rightarrow> error + Sample list" where
  "filter_window startTime now [] = Inr []"
| "filter_window startTime now (None # xs) = Inl TypeError"
| "filter_window startTime now (Some s # xs) =
     (case filter_window startTime now xs of
        Inl e \<Rightarrow> Inl e
      | Inr ys \<Rightarrow> Inr (if timestamp s \<ge> startTime \<and> timestamp s \<le> now then s # ys else ys))"

text \<open>
  \<open>.sort(compare)\<close>: the language fixes the result for a comparator that is a consistent
  ordering (the elements in nondecreasing order, equal ones in their original order),
  not the algorithm. The model is a stable insertion sort driven by the comparator's
  sign.
\<close>

fun insert_cmp :: "('a \<Rightarrow> 'a \<Rightarrow> real) \<Rightarrow> 'a \<Rightarrow> 'a list \<Rightarrow> 'a list" where
  "insert_cmp cmp x [] = [x]"
| "insert_cmp cmp x (y # ys) =
     (if cmp x y \<le> 0 then x # y # ys else y # insert_cmp cmp x ys)"

definition sort_cmp :: "('a \<Rightarrow> 'a \<Rightarrow> real) \<Rightarrow> 'a list \<Rightarrow> 'a list" where
  "sort_cmp cmp xs = foldr (insert_cmp cmp) xs []"

text \<open>\<open>samples.forEach((sample, i) => ...)\<close>: one vertex per sample.\<close>

fun plot :: "real \<Rightarrow> nat \<Rightarrow> Sample list \<Rightarrow> canvas_op list" where
  "plot now i [] = []"
| "plot now i (sample # rest) =
     (let x = GRAPH_WIDTH - ((now - timestamp sample) * GRAPH_WIDTH / WINDOW_DURATION);
          y = yScale (value sample)
      in (if i = 0 then MoveTo x y else LineTo x y) # plot now (Suc i) rest)"

text \<open>
  The callback of \<open>dataRef.current.forEach((buffer, channelIndex) => ...)\<close> in \<open>draw\<close>:
  the operations issued on the channel's canvas, and the error raised, if any.
\<close>

definition draw_channel :: "bool list \<Rightarrow> real \<Rightarrow> nat \<Rightarrow> RingBuffer \<Rightarrow> error option \<times> canvas_op list" where
  "draw_channel canvases now channelIndex buf =
     (let startTime = now - WINDOW_DURATION in
      case js_nth canvases channelIndex of
        None \<Rightarrow> (None, [])
      | Some False \<Rightarrow> (None, [])
      | Some True \<Rightarrow>
          (case filter_window startTime now (getArray buf) of
             Inl e \<Rightarrow> (Some e, [DrawImage])
           | Inr inWindow \<Rightarrow>
               (let samples = sort_cmp (\<lambda>a b. timestamp a - timestamp b) inWindow in
                (None,
                 DrawImage #
                 (if length samples \<ge> 2
                  then [BeginPath, StrokeStyle (js_nth CHANNEL_COLORS channelIndex), LineWidth 2]
                       @ plot now 0 samples @ [Stroke]
                  else [])))))"

text \<open>One frame: the channels in order, stopping at the first error.\<close>

fun draw_from :: "bool list \<Rightarrow> real \<Rightarrow> nat \<Rightarrow> RingBuffer list \<Rightarrow> error option \<times> canvas_op list list" where
  "draw_from canvases now channelIndex [] = (None, [])"
| "draw_from canvases now channelIndex (buf # bufs) =
     (case draw_channel canvases now channelIndex buf of
        (Some e, ops) \<Rightarrow> (Some e, [ops])
      | (None, ops) \<Rightarrow>
          (case draw_from canvases now (Suc channelIndex) bufs of
             (r, opss) \<Rightarrow> (r, ops # opss)))"

definition draw :: "real \<Rightarrow> state \<Rightarrow> error option \<times> canvas_op list list" where
  "draw now st = draw_from (canvasRefs st) now 0 (dataRef st)"

section \<open>The representation invariant of a ring buffer\<close>

text \<open>
  What the constructor establishes for a positive capacity and every push keeps: the
  array has the capacity's length and no hole, and the pointer is one of its indices.
\<close>

definition ring_inv :: "nat \<Rightarrow> RingBuffer \<Rightarrow> bool" where
  "ring_inv c rb =
     (capacity rb = c \<and> length (buffer rb) = c \<and> None \<notin> set (buffer rb)
      \<and> (\<exists>p. pointer rb = Finite p \<and> p < c))"

section \<open>Evaluation of the double arithmetic\<close>

text \<open>
  The exponent search is unfolded on demand only; \<open>double_eval\<close> is what evaluates
  \<open>yScale_double\<close> at a given double.
\<close>

declare up_exp.simps [simp del] down_exp.simps [simp del]

lemmas double_eval =
  yScale_double_def sub64_def mul64_def div64_def is_zero_def is_inf_def signed_zero_def
  signed_inf_def round64_def round_magnitude_def exponent_def up_exp.simps down_exp.simps
  round_half_even_def GRAPH_HEIGHT_def Let_def

section \<open>Ring buffer: basic facts\<close>

lemma WINDOW_SIZE_eq: "WINDOW_SIZE = 500"
  by (simp add: WINDOW_SIZE_def SAMPLE_RATE_def WINDOW_DURATION_def)

lemma ring_inv_new: "RingBuffer_new c = Inr rb \<Longrightarrow> 0 < c \<Longrightarrow> ring_inv c rb"
  by (auto simp: RingBuffer_new_def ring_inv_def split: if_splits)

lemma ring_inv_push: "ring_inv c rb \<Longrightarrow> ring_inv c (push rb s)"
  by (auto simp: ring_inv_def push_def js_store_def js_rem_def dest: subsetD [OF set_update_subset_insert])

lemma ring_inv_pushes: "ring_inv c rb \<Longrightarrow> ring_inv c (foldl push rb xs)"
  by (induction xs arbitrary: rb) (auto simp: ring_inv_push)

lemma length_getArray: "length (getArray rb) = length (buffer rb)"
  by (auto simp: getArray_def split: index.splits)

lemma push_in_range:
  "ring_inv c rb \<Longrightarrow> pointer rb = Finite p \<Longrightarrow>
   buffer (push rb s) = (buffer rb)[p := Some s] \<and> p < length (buffer rb)"
  by (auto simp: ring_inv_def push_def js_store_def)

lemma getArray_push:
  assumes "ring_inv c rb"
  shows "getArray (push rb s) = tl (getArray rb) @ [Some s]"
proof -
  from assms obtain p where p: "pointer rb = Finite p" "p < c" and len: "length (buffer rb) = c"
    and cap: "capacity rb = c"
    by (auto simp: ring_inv_def)
  have old: "tl (getArray rb) = drop (Suc p) (buffer rb) @ take p (buffer rb)"
    using p len Cons_nth_drop_Suc [of p "buffer rb"]
    by (simp add: getArray_def) (metis list.sel(3) tl_append2 list.distinct(1))
  show ?thesis
  proof (cases "Suc p < c")
    case True
    then show ?thesis
      using p len cap old
      by (simp add: getArray_def push_def js_store_def js_rem_def take_Suc_conv_app_nth)
  next
    case False
    with p have "Suc p = c" by simp
    then show ?thesis
      using p len cap old
      by (simp add: getArray_def push_def js_store_def js_rem_def upd_conv_take_nth_drop)
  qed
qed

lemma getArray_pushes:
  "ring_inv c rb \<Longrightarrow> 0 < c \<Longrightarrow>
   getArray (foldl push rb xs) = drop (length xs) (getArray rb @ map Some xs)"
proof (induction xs arbitrary: rb)
  case Nil
  then show ?case by simp
next
  case (Cons x xs)
  have ne: "getArray rb \<noteq> []"
    using Cons.prems by (auto simp: ring_inv_def length_getArray simp flip: length_greater_0_conv)
  have "getArray (foldl push (push rb x) xs) =
        drop (length xs) (getArray (push rb x) @ map Some xs)"
    using Cons.IH [OF ring_inv_push [OF Cons.prems(1)] Cons.prems(2)] .
  also have "getArray (push rb x) @ map Some xs = tl (getArray rb @ Some x # map Some xs)"
    using ne by (simp add: getArray_push [OF Cons.prems(1)])
  also have "drop (length xs) (tl (getArray rb @ Some x # map Some xs)) =
             drop (length (x # xs)) (getArray rb @ Some x # map Some xs)"
    by (simp only: drop_Suc length_Cons)
  finally show ?case by simp
qed

lemma getArray_new:
  "RingBuffer_new c = Inr rb \<Longrightarrow>
   getArray rb = map Some (replicate c \<lparr>timestamp = 0, value = 0\<rparr>)"
  by (auto simp: RingBuffer_new_def getArray_def split: if_splits)

lemma getArray_new_pushes:
  assumes "RingBuffer_new c = Inr rb0" and "0 < c"
  shows "getArray (foldl push rb0 xs) =
         map Some (drop (length xs) (replicate c \<lparr>timestamp = 0, value = 0\<rparr> @ xs))"
proof -
  have "getArray (foldl push rb0 xs) = drop (length xs) (getArray rb0 @ map Some xs)"
    using ring_inv_new [OF assms] assms(2) by (rule getArray_pushes)
  also have "\<dots> = map Some (drop (length xs) (replicate c \<lparr>timestamp = 0, value = 0\<rparr> @ xs))"
    unfolding getArray_new [OF assms(1)] by (simp only: drop_map flip: map_append)
  finally show ?thesis .
qed

lemma replicate_2: "replicate 2 x = [x, x]"
  by (simp add: numeral_2_eq_2)

text \<open>
  Claim C8, for a positive capacity: after \<open>n \<ge> c\<close> pushes into a fresh buffer of
  capacity \<open>c > 0\<close>, \<open>getArray\<close> returns exactly the last \<open>c\<close> pushed samples, oldest
  first and newest last.
\<close>
theorem getArray_last_pushed:
  assumes "RingBuffer_new c = Inr rb0" and "0 < c" and "c \<le> length xs"
  shows "getArray (foldl push rb0 xs) = map Some (drop (length xs - c) xs)"
  using assms(3) by (simp add: getArray_new_pushes [OF assms(1,2)])

theorem getArray_last_pushed_witness:
  "RingBuffer_new 2 = Inr \<lparr>buffer = [Some \<lparr>timestamp = 0, value = 0\<rparr>, Some \<lparr>timestamp = 0, value = 0\<rparr>],
                            pointer = Finite 0, capacity = 2\<rparr>
   \<and> (0::nat) < 2
   \<and> 2 \<le> length [\<lparr>timestamp = 1, value = 10\<rparr>, \<lparr>timestamp = 2, value = 20\<rparr>, \<lparr>timestamp = 3, value = 30\<rparr>]
   \<and> getArray (foldl push \<lparr>buffer = [Some \<lparr>timestamp = 0, value = 0\<rparr>, Some \<lparr>timestamp = 0, value = 0\<rparr>],
                            pointer = Finite 0, capacity = 2\<rparr>
        [\<lparr>timestamp = 1, value = 10\<rparr>, \<lparr>timestamp = 2, value = 20\<rparr>, \<lparr>timestamp = 3, value = 30\<rparr>])
     = [Some \<lparr>timestamp = 2, value = 20\<rparr>, Some \<lparr>timestamp = 3, value = 30\<rparr>]"
proof -
  have new: "RingBuffer_new 2 = Inr \<lparr>buffer = [Some \<lparr>timestamp = 0, value = 0\<rparr>, Some \<lparr>timestamp = 0, value = 0\<rparr>],
                            pointer = Finite 0, capacity = 2\<rparr>"
    by (simp add: RingBuffer_new_def replicate_2)
  show ?thesis
    using new getArray_last_pushed [OF new, of "[\<lparr>timestamp = 1, value = 10\<rparr>, \<lparr>timestamp = 2, value = 20\<rparr>, \<lparr>timestamp = 3, value = 30\<rparr>]"]
    by simp
qed

text \<open>
  Claim C8 as stated, for every capacity, fails at capacity \<open>0\<close>: the first push grows
  the empty array to length \<open>1\<close>, and \<open>getArray\<close> then returns one sample, not the last
  \<open>0\<close> pushed samples.
\<close>
theorem getArray_capacity_zero_counterexample:
  "RingBuffer_new 0 = Inr \<lparr>buffer = [], pointer = Finite 0, capacity = 0\<rparr>
   \<and> (0::nat) \<le> length [\<lparr>timestamp = 1, value = 10\<rparr>]
   \<and> getArray (foldl push \<lparr>buffer = [], pointer = Finite 0, capacity = 0\<rparr> [\<lparr>timestamp = 1, value = 10\<rparr>])
       = [Some \<lparr>timestamp = 1, value = 10\<rparr>]
   \<and> map Some (drop (length [\<lparr>timestamp = 1, value = 10\<rparr>] - 0) [\<lparr>timestamp = 1, value = 10\<rparr>]) = []"
  by (simp add: RingBuffer_new_def push_def js_store_def js_rem_def getArray_def)


text \<open>
  Claim C1: in a buffer of capacity \<open>c > 0\<close> that has received \<open>n \<ge> c\<close> pushes, the slots
  hold the last \<open>c\<close> pushed samples, the slot under the pointer holds the oldest of
  them (the one pushed \<open>c\<close> pushes before the next), and the next push writes the new
  sample into that slot and changes no other slot.
\<close>
theorem push_overwrites_oldest:
  assumes "RingBuffer_new c = Inr rb0" and "0 < c" and "c \<le> length xs"
  shows "\<exists>i. i < c \<and> pointer (foldl push rb0 xs) = Finite i
           \<and> length (buffer (foldl push rb0 xs)) = c
           \<and> mset (buffer (foldl push rb0 xs)) = mset (map Some (drop (length xs - c) xs))
           \<and> buffer (foldl push rb0 xs) ! i = Some (xs ! (length xs - c))
           \<and> buffer (push (foldl push rb0 xs) s) = (buffer (foldl push rb0 xs))[i := Some s]"
proof -
  let ?rb = "foldl push rb0 xs"
  have inv: "ring_inv c ?rb"
    using assms(1,2) by (simp add: ring_inv_new ring_inv_pushes)
  then obtain i where i: "pointer ?rb = Finite i" "i < c" and len: "length (buffer ?rb) = c"
    by (auto simp: ring_inv_def)
  have arr: "getArray ?rb = map Some (drop (length xs - c) xs)"
    using assms(3) by (simp add: getArray_new_pushes [OF assms(1,2)])
  have "hd (getArray ?rb) = buffer ?rb ! i"
    using i len by (simp add: getArray_def hd_append hd_drop_conv_nth)
  moreover have "hd (getArray ?rb) = Some (xs ! (length xs - c))"
    using assms(2,3) by (simp add: arr hd_map hd_drop_conv_nth)
  ultimately have slot: "buffer ?rb ! i = Some (xs ! (length xs - c))" by simp
  have "mset (getArray ?rb) = mset (buffer ?rb)"
    using i by (simp add: getArray_def) (metis append_take_drop_id mset_append union_commute)
  then have ms: "mset (buffer ?rb) = mset (map Some (drop (length xs - c) xs))"
    by (simp only: arr)
  from i len slot ms push_in_range [OF inv i(1), of s] show ?thesis by blast
qed

theorem push_overwrites_oldest_witness:
  "RingBuffer_new 2 = Inr \<lparr>buffer = [Some \<lparr>timestamp = 0, value = 0\<rparr>, Some \<lparr>timestamp = 0, value = 0\<rparr>],
                            pointer = Finite 0, capacity = 2\<rparr>
   \<and> (0::nat) < 2
   \<and> 2 \<le> length [\<lparr>timestamp = 1, value = 10\<rparr>, \<lparr>timestamp = 2, value = 20\<rparr>, \<lparr>timestamp = 3, value = 30\<rparr>]
   \<and> pointer (foldl push \<lparr>buffer = [Some \<lparr>timestamp = 0, value = 0\<rparr>, Some \<lparr>timestamp = 0, value = 0\<rparr>],
                            pointer = Finite 0, capacity = 2\<rparr>
             [\<lparr>timestamp = 1, value = 10\<rparr>, \<lparr>timestamp = 2, value = 20\<rparr>, \<lparr>timestamp = 3, value = 30\<rparr>])
       = Finite 1
   \<and> buffer (foldl push \<lparr>buffer = [Some \<lparr>timestamp = 0, value = 0\<rparr>, Some \<lparr>timestamp = 0, value = 0\<rparr>],
                            pointer = Finite 0, capacity = 2\<rparr>
             [\<lparr>timestamp = 1, value = 10\<rparr>, \<lparr>timestamp = 2, value = 20\<rparr>, \<lparr>timestamp = 3, value = 30\<rparr>]) ! 1
       = Some \<lparr>timestamp = 2, value = 20\<rparr>
   \<and> buffer (push (foldl push \<lparr>buffer = [Some \<lparr>timestamp = 0, value = 0\<rparr>, Some \<lparr>timestamp = 0, value = 0\<rparr>],
                            pointer = Finite 0, capacity = 2\<rparr>
             [\<lparr>timestamp = 1, value = 10\<rparr>, \<lparr>timestamp = 2, value = 20\<rparr>, \<lparr>timestamp = 3, value = 30\<rparr>])
             \<lparr>timestamp = 4, value = 40\<rparr>)
       = [Some \<lparr>timestamp = 3, value = 30\<rparr>, Some \<lparr>timestamp = 4, value = 40\<rparr>]"
proof -
  let ?R = "\<lparr>buffer = [Some \<lparr>timestamp = 0, value = 0\<rparr>, Some \<lparr>timestamp = 0, value = 0\<rparr>],
            pointer = Finite 0, capacity = 2\<rparr>"
  let ?xs = "[\<lparr>timestamp = 1, value = 10\<rparr>, \<lparr>timestamp = 2, value = 20\<rparr>, \<lparr>timestamp = 3, value = 30\<rparr>]"
  have new: "RingBuffer_new 2 = Inr ?R"
    by (simp add: RingBuffer_new_def replicate_2)
  have two: "(0::nat) < 2" and three: "2 \<le> length ?xs"
    by simp_all
  have state: "foldl push ?R ?xs =
      \<lparr>buffer = [Some \<lparr>timestamp = 3, value = 30\<rparr>, Some \<lparr>timestamp = 2, value = 20\<rparr>],
       pointer = Finite 1, capacity = 2\<rparr>"
    by (simp add: push_def js_store_def js_rem_def)
  from push_overwrites_oldest [OF new two three, of "\<lparr>timestamp = 4, value = 40\<rparr>"]
  obtain i where i: "pointer (foldl push ?R ?xs) = Finite i"
    and slot: "buffer (foldl push ?R ?xs) ! i = Some (?xs ! (length ?xs - 2))"
    and upd: "buffer (push (foldl push ?R ?xs) \<lparr>timestamp = 4, value = 40\<rparr>)
              = (buffer (foldl push ?R ?xs))[i := Some \<lparr>timestamp = 4, value = 40\<rparr>]"
    by blast
  from i have "i = 1" unfolding state by simp
  with slot upd new two three show ?thesis
    unfolding state by simp
qed

text \<open>
  Claim C3, for a positive capacity: whatever is pushed into a buffer constructed with
  capacity \<open>c > 0\<close>, the underlying array keeps length \<open>c\<close> and \<open>getArray\<close> returns
  \<open>c\<close> samples (no holes).
\<close>
theorem buffer_length_constant:
  assumes "RingBuffer_new c = Inr rb0" and "0 < c"
  shows "length (buffer (foldl push rb0 xs)) = c
         \<and> (\<exists>ys. getArray (foldl push rb0 xs) = map Some ys \<and> length ys = c)"
proof -
  have "ring_inv c (foldl push rb0 xs)"
    using assms by (simp add: ring_inv_new ring_inv_pushes)
  then have "length (buffer (foldl push rb0 xs)) = c"
    by (simp add: ring_inv_def)
  moreover have "length (drop (length xs) (replicate c \<lparr>timestamp = 0, value = 0\<rparr> @ xs)) = c"
    by simp
  ultimately show ?thesis
    using getArray_new_pushes [OF assms, of xs] by blast
qed

theorem buffer_length_constant_witness:
  "RingBuffer_new 2 = Inr \<lparr>buffer = [Some \<lparr>timestamp = 0, value = 0\<rparr>, Some \<lparr>timestamp = 0, value = 0\<rparr>],
                            pointer = Finite 0, capacity = 2\<rparr>
   \<and> (0::nat) < 2
   \<and> length (buffer (foldl push \<lparr>buffer = [Some \<lparr>timestamp = 0, value = 0\<rparr>, Some \<lparr>timestamp = 0, value = 0\<rparr>],
                            pointer = Finite 0, capacity = 2\<rparr>
        [\<lparr>timestamp = 1, value = 10\<rparr>, \<lparr>timestamp = 2, value = 20\<rparr>, \<lparr>timestamp = 3, value = 30\<rparr>])) = 2
   \<and> length (getArray (foldl push \<lparr>buffer = [Some \<lparr>timestamp = 0, value = 0\<rparr>, Some \<lparr>timestamp = 0, value = 0\<rparr>],
                            pointer = Finite 0, capacity = 2\<rparr>
        [\<lparr>timestamp = 1, value = 10\<rparr>, \<lparr>timestamp = 2, value = 20\<rparr>, \<lparr>timestamp = 3, value = 30\<rparr>])) = 2"
proof -
  have new: "RingBuffer_new 2 = Inr \<lparr>buffer = [Some \<lparr>timestamp = 0, value = 0\<rparr>, Some \<lparr>timestamp = 0, value = 0\<rparr>],
                            pointer = Finite 0, capacity = 2\<rparr>"
    by (simp add: RingBuffer_new_def replicate_2)
  show ?thesis
    using new buffer_length_constant [OF new, of "[\<lparr>timestamp = 1, value = 10\<rparr>, \<lparr>timestamp = 2, value = 20\<rparr>, \<lparr>timestamp = 3, value = 30\<rparr>]"]
    by auto
qed

text \<open>
  Claim C3 as stated, for every capacity, fails at capacity \<open>0\<close>: after one push the
  underlying array has length \<open>1\<close>, \<open>getArray\<close> returns one sample, and the pointer is
  NaN from then on.
\<close>
theorem buffer_length_capacity_zero_counterexample:
  "RingBuffer_new 0 = Inr \<lparr>buffer = [], pointer = Finite 0, capacity = 0\<rparr>
   \<and> length (buffer (foldl push \<lparr>buffer = [], pointer = Finite 0, capacity = 0\<rparr> [\<lparr>timestamp = 1, value = 10\<rparr>])) = 1
   \<and> length (getArray (foldl push \<lparr>buffer = [], pointer = Finite 0, capacity = 0\<rparr> [\<lparr>timestamp = 1, value = 10\<rparr>])) = 1
   \<and> pointer (foldl push \<lparr>buffer = [], pointer = Finite 0, capacity = 0\<rparr> [\<lparr>timestamp = 1, value = 10\<rparr>]) = NaN"
  by (simp add: RingBuffer_new_def push_def js_store_def js_rem_def getArray_def)

text \<open>
  Claim C10: for a buffer constructed with capacity \<open>c > 0\<close>, \<open>0 \<le> pointer < c\<close> holds
  initially, every push preserves it, and so in every state reached by pushes the
  pointer is an index of the underlying array and the push overwrites that slot.
\<close>
theorem pointer_stays_in_bounds:
  assumes "RingBuffer_new c = Inr rb0" and "0 < c"
  shows "(\<exists>p. pointer rb0 = Finite p \<and> p < c)
         \<and> (\<forall>rb s. capacity rb = c \<and> (\<exists>p. pointer rb = Finite p \<and> p < c)
               \<longrightarrow> capacity (push rb s) = c \<and> (\<exists>p. pointer (push rb s) = Finite p \<and> p < c))
         \<and> (\<forall>xs s. \<exists>p. pointer (foldl push rb0 xs) = Finite p \<and> p < c
               \<and> p < length (buffer (foldl push rb0 xs))
               \<and> buffer (push (foldl push rb0 xs) s) = (buffer (foldl push rb0 xs))[p := Some s])"
proof (intro conjI allI impI)
  show "\<exists>p. pointer rb0 = Finite p \<and> p < c"
    using ring_inv_new [OF assms] by (simp add: ring_inv_def)
next
  fix rb :: RingBuffer and s
  assume "capacity rb = c \<and> (\<exists>p. pointer rb = Finite p \<and> p < c)"
  then show "capacity (push rb s) = c"
    by (auto simp: push_def)
next
  fix rb :: RingBuffer and s
  assume "capacity rb = c \<and> (\<exists>p. pointer rb = Finite p \<and> p < c)"
  then show "\<exists>p. pointer (push rb s) = Finite p \<and> p < c"
    using assms(2) by (auto simp: push_def js_rem_def)
next
  fix xs s
  have inv: "ring_inv c (foldl push rb0 xs)"
    using assms by (simp add: ring_inv_new ring_inv_pushes)
  then obtain p where p: "pointer (foldl push rb0 xs) = Finite p" "p < c"
    by (auto simp: ring_inv_def)
  with push_in_range [OF inv p(1), of s]
  show "\<exists>p. pointer (foldl push rb0 xs) = Finite p \<and> p < c
               \<and> p < length (buffer (foldl push rb0 xs))
               \<and> buffer (push (foldl push rb0 xs) s) = (buffer (foldl push rb0 xs))[p := Some s]"
    by blast
qed

theorem pointer_stays_in_bounds_witness:
  "RingBuffer_new 2 = Inr \<lparr>buffer = [Some \<lparr>timestamp = 0, value = 0\<rparr>, Some \<lparr>timestamp = 0, value = 0\<rparr>],
                            pointer = Finite 0, capacity = 2\<rparr>
   \<and> (0::nat) < 2
   \<and> (\<exists>p. pointer (foldl push \<lparr>buffer = [Some \<lparr>timestamp = 0, value = 0\<rparr>, Some \<lparr>timestamp = 0, value = 0\<rparr>],
                            pointer = Finite 0, capacity = 2\<rparr>
        [\<lparr>timestamp = 1, value = 10\<rparr>, \<lparr>timestamp = 2, value = 20\<rparr>, \<lparr>timestamp = 3, value = 30\<rparr>]) = Finite p \<and> p < 2)
   \<and> pointer (foldl push \<lparr>buffer = [Some \<lparr>timestamp = 0, value = 0\<rparr>, Some \<lparr>timestamp = 0, value = 0\<rparr>],
                            pointer = Finite 0, capacity = 2\<rparr>
        [\<lparr>timestamp = 1, value = 10\<rparr>, \<lparr>timestamp = 2, value = 20\<rparr>, \<lparr>timestamp = 3, value = 30\<rparr>]) = Finite 1"
proof -
  have new: "RingBuffer_new 2 = Inr \<lparr>buffer = [Some \<lparr>timestamp = 0, value = 0\<rparr>, Some \<lparr>timestamp = 0, value = 0\<rparr>],
                            pointer = Finite 0, capacity = 2\<rparr>"
    by (simp add: RingBuffer_new_def replicate_2)
  have two: "(0::nat) < 2" by simp
  have eval: "pointer (foldl push \<lparr>buffer = [Some \<lparr>timestamp = 0, value = 0\<rparr>, Some \<lparr>timestamp = 0, value = 0\<rparr>],
                            pointer = Finite 0, capacity = 2\<rparr>
        [\<lparr>timestamp = 1, value = 10\<rparr>, \<lparr>timestamp = 2, value = 20\<rparr>, \<lparr>timestamp = 3, value = 30\<rparr>]) = Finite 1"
    by (simp add: push_def js_store_def js_rem_def)
  from pointer_stays_in_bounds [OF new two] have
    "\<exists>p. pointer (foldl push \<lparr>buffer = [Some \<lparr>timestamp = 0, value = 0\<rparr>, Some \<lparr>timestamp = 0, value = 0\<rparr>],
                            pointer = Finite 0, capacity = 2\<rparr>
        [\<lparr>timestamp = 1, value = 10\<rparr>, \<lparr>timestamp = 2, value = 20\<rparr>, \<lparr>timestamp = 3, value = 30\<rparr>]) = Finite p \<and> p < 2"
    by blast
  with new two eval show ?thesis by blast
qed

section \<open>The message handler: what a batch does to the buffers\<close>

lemma enumerate_map_nth:
  "map (\<lambda>(j, v). f j v) (List.enumerate i vs) = map (\<lambda>j. f (i + j) (vs ! j)) [0..<length vs]"
  by (rule nth_equalityI) (simp_all add: nth_enumerate_eq)

lemma channel_forEach_ok:
  "channelIndex < length (dataRef st) \<Longrightarrow>
   channel_forEach t channelIndex i vs st =
     (None, st\<lparr>dataRef := (dataRef st)
        [channelIndex := foldl push (dataRef st ! channelIndex)
           (map (\<lambda>(j, v). \<lparr>timestamp = t + real j * sampleInterval, value = v\<rparr>)
              (List.enumerate i vs))]\<rparr>)"
  by (induction vs arbitrary: i st) (simp_all add: js_nth_def)

lemma channel_forEach_no_buffer:
  "\<not> channelIndex < length (dataRef st) \<Longrightarrow>
   channel_forEach t channelIndex i vs st = (if vs = [] then (None, st) else (Some TypeError, st))"
  by (cases vs) (simp_all add: js_nth_def)

lemma channels_forEach_buffers:
  "k < length (dataRef st) \<Longrightarrow>
   dataRef (snd (channels_forEach t k0 (map NumberArray vss) st)) ! k =
     (if k0 \<le> k \<and> k - k0 < length vss
      then foldl push (dataRef st ! k)
             (map (\<lambda>(j, v). \<lparr>timestamp = t + real j * sampleInterval, value = v\<rparr>)
                (List.enumerate 0 (vss ! (k - k0))))
      else dataRef st ! k)"
proof (induction vss arbitrary: k0 st)
  case Nil
  then show ?case by simp
next
  case (Cons ws vss)
  show ?case
  proof (cases "k0 < length (dataRef st)")
    case True
    let ?st1 = "st\<lparr>dataRef := (dataRef st)
        [k0 := foldl push (dataRef st ! k0)
           (map (\<lambda>(j, v). \<lparr>timestamp = t + real j * sampleInterval, value = v\<rparr>)
              (List.enumerate 0 ws))]\<rparr>"
    have k: "k < length (dataRef ?st1)" using Cons.prems by simp
    show ?thesis
      using True Cons.prems
      by (auto simp add: channel_forEach_ok Cons.IH [OF k] nth_Cons' Suc_diff_le)
  next
    case False
    then show ?thesis
      using Cons.prems by (auto simp add: channel_forEach_no_buffer Cons.IH)
  qed
qed

lemma channels_forEach_buffer_any:
  "k < length (dataRef st) \<Longrightarrow>
   dataRef (snd (channels_forEach t k0 cs st)) ! k =
     (if k0 \<le> k \<and> k - k0 < length cs \<and> NotAnArray \<notin> set (take (Suc (k - k0)) cs)
      then foldl push (dataRef st ! k)
             (map (\<lambda>(j, v). \<lparr>timestamp = t + real j * sampleInterval, value = v\<rparr>)
                (List.enumerate 0 (case cs ! (k - k0) of NumberArray vs \<Rightarrow> vs | NotAnArray \<Rightarrow> [])))
      else dataRef st ! k)"
proof (induction cs arbitrary: k0 st)
  case Nil
  then show ?case by simp
next
  case (Cons ch cs)
  show ?case
  proof (cases ch)
    case NotAnArray
    then show ?thesis by simp
  next
    case (NumberArray ws)
    show ?thesis
    proof (cases "k0 < length (dataRef st)")
      case True
      let ?st1 = "st\<lparr>dataRef := (dataRef st)
          [k0 := foldl push (dataRef st ! k0)
             (map (\<lambda>(j, v). \<lparr>timestamp = t + real j * sampleInterval, value = v\<rparr>)
                (List.enumerate 0 ws))]\<rparr>"
      have k: "k < length (dataRef ?st1)" using Cons.prems by simp
      show ?thesis
      proof (cases "k0 < k")
        case True
        then have "Suc (k - Suc k0) = k - k0" by simp
        then show ?thesis
          using \<open>k0 < length (dataRef st)\<close> \<open>k0 < k\<close> Cons.prems NumberArray
          by (simp add: channel_forEach_ok Cons.IH [OF k] nth_Cons')
      next
        case False
        then show ?thesis
          using \<open>k0 < length (dataRef st)\<close> Cons.prems NumberArray
          by (auto simp add: channel_forEach_ok Cons.IH [OF k])
      qed
    next
      case False
      then show ?thesis
        using Cons.prems NumberArray by (auto simp add: channel_forEach_no_buffer Cons.IH)
    qed
  qed
qed

lemma channels_forEach_length:
  "length (dataRef (snd (channels_forEach t k0 cs st))) = length (dataRef st)"
proof (induction cs arbitrary: k0 st)
  case Nil
  then show ?case by simp
next
  case (Cons c cs)
  show ?case
  proof (cases c)
    case (NumberArray ws)
    then show ?thesis
      by (cases "k0 < length (dataRef st)")
         (auto simp add: channel_forEach_ok channel_forEach_no_buffer Cons.IH)
  next
    case NotAnArray
    then show ?thesis by simp
  qed
qed



lemma channels_forEach_completes:
  "fst (channels_forEach t k0 cs st) = None \<Longrightarrow>
   NotAnArray \<notin> set cs
   \<and> (\<forall>m vs. m < length cs \<and> cs ! m = NumberArray vs \<and> vs \<noteq> [] \<longrightarrow> k0 + m < length (dataRef st))"
proof (induction cs arbitrary: k0 st)
  case Nil
  then show ?case by simp
next
  case (Cons c cs)
  show ?case
  proof (cases c)
    case NotAnArray
    with Cons.prems show ?thesis by simp
  next
    case (NumberArray ws)
    show ?thesis
    proof (cases "k0 < length (dataRef st)")
      case True
      let ?st1 = "st\<lparr>dataRef := (dataRef st)
        [k0 := foldl push (dataRef st ! k0)
           (map (\<lambda>(j, v). \<lparr>timestamp = t + real j * sampleInterval, value = v\<rparr>)
              (List.enumerate 0 ws))]\<rparr>"
      have "fst (channels_forEach t (Suc k0) cs ?st1) = None"
        using Cons.prems NumberArray True by (simp add: channel_forEach_ok)
      from Cons.IH [OF this] show ?thesis
        using NumberArray True by (auto simp add: nth_Cons split: nat.splits)
    next
      case False
      with Cons.prems NumberArray have ws: "ws = []"
        by (auto simp add: channel_forEach_no_buffer split: if_splits)
      with Cons.prems NumberArray False have "fst (channels_forEach t (Suc k0) cs st) = None"
        by (simp add: channel_forEach_no_buffer)
      from Cons.IH [OF this] show ?thesis
        using NumberArray ws by (auto simp add: nth_Cons split: nat.splits)
    qed
  qed
qed

lemma no_NotAnArray_map:
  "NotAnArray \<notin> set cs \<Longrightarrow> \<exists>vss. cs = map NumberArray vss"
proof (induction cs)
  case Nil
  then show ?case by simp
next
  case (Cons c cs)
  then obtain vss where "cs = map NumberArray vss" by auto
  moreover from Cons.prems obtain ws where "c = NumberArray ws" by (cases c) auto
  ultimately have "c # cs = map NumberArray (ws # vss)" by simp
  then show ?case by (rule exI)
qed

lemma channel_forEach_ring_inv:
  "\<forall>b \<in> set (dataRef st). ring_inv c b \<Longrightarrow>
   \<forall>b \<in> set (dataRef (snd (channel_forEach t k i vs st))). ring_inv c b"
proof (induction vs arbitrary: i st)
  case Nil
  then show ?case by simp
next
  case (Cons v vs)
  show ?case
  proof (cases "k < length (dataRef st)")
    case True
    let ?st1 = "st\<lparr>dataRef := (dataRef st)
               [k := push (dataRef st ! k) \<lparr>timestamp = t + real i * sampleInterval, value = v\<rparr>]\<rparr>"
    have "\<forall>b \<in> set (dataRef ?st1). ring_inv c b"
      using Cons.prems True
      by (auto simp add: ring_inv_push dest!: subsetD [OF set_update_subset_insert])
    from Cons.IH [OF this] show ?thesis
      using True by (simp add: js_nth_def)
  next
    case False
    with Cons.prems show ?thesis by (simp add: js_nth_def)
  qed
qed

lemma channels_forEach_ring_inv:
  "\<forall>b \<in> set (dataRef st). ring_inv c b \<Longrightarrow>
   \<forall>b \<in> set (dataRef (snd (channels_forEach t k cs st))). ring_inv c b"
proof (induction cs arbitrary: k st)
  case Nil
  then show ?case by simp
next
  case (Cons ch cs)
  show ?case
  proof (cases ch)
    case NotAnArray
    with Cons.prems show ?thesis by simp
  next
    case (NumberArray ws)
    have 1: "\<forall>b \<in> set (dataRef (snd (channel_forEach t k 0 ws st))). ring_inv c b"
      using Cons.prems by (rule channel_forEach_ring_inv)
    show ?thesis
    proof (cases "channel_forEach t k 0 ws st")
      case (Pair r st1)
      with 1 have "\<forall>b \<in> set (dataRef st1). ring_inv c b" by simp
      from Cons.IH [OF this] 1 show ?thesis
        using NumberArray Pair by (cases r) simp_all
    qed
  qed
qed

lemma dataRef_handleMessage:
  "dataRef (handleMessage now msg st) = dataRef (snd (try_block now msg st))"
  by (simp add: handleMessage_def split: prod.splits option.splits)

lemma handleMessage_ring_inv:
  assumes "\<forall>b \<in> set (dataRef st). ring_inv c b"
  shows "\<forall>b \<in> set (dataRef (handleMessage now msg st)). ring_inv c b"
proof (cases msg)
  case (Batch cs t)
  have "\<forall>b \<in> set (dataRef (st\<lparr>lastTimestampRef := now\<rparr>)). ring_inv c b"
    using assms by simp
  from channels_forEach_ring_inv [OF this] show ?thesis
    using Batch by (simp add: dataRef_handleMessage try_block_def)
qed (use assms in \<open>simp_all add: dataRef_handleMessage try_block_def\<close>)

lemma handleMessage_length:
  "length (dataRef (handleMessage now msg st)) = length (dataRef st)"
  by (cases msg) (simp_all add: dataRef_handleMessage try_block_def channels_forEach_length)

lemma replicate_4: "replicate 4 x = [x, x, x, x]"
  by (simp add: numeral_eq_Suc)

lemma initial_state_ring_inv:
  "initial_state now = Inr st \<Longrightarrow>
   length (dataRef st) = 4 \<and> (\<forall>b \<in> set (dataRef st). ring_inv WINDOW_SIZE b)"
  by (auto simp add: initial_state_def WINDOW_SIZE_eq ring_inv_new split: sum.splits)


text \<open>
  Every state the component reaches from its initial state by handling messages has four
  buffers, each a well-formed ring of capacity \<open>WINDOW_SIZE\<close>.
\<close>

lemma messages_keep_buffers_well_formed:
  assumes "initial_state now0 = Inr st0"
  shows "length (dataRef (foldl (\<lambda>st (now, msg). handleMessage now msg st) st0 events)) = 4
         \<and> (\<forall>b \<in> set (dataRef (foldl (\<lambda>st (now, msg). handleMessage now msg st) st0 events)).
               ring_inv WINDOW_SIZE b)"
proof -
  have "length (dataRef st) = 4 \<and> (\<forall>b \<in> set (dataRef st). ring_inv WINDOW_SIZE b) \<Longrightarrow>
        length (dataRef (foldl (\<lambda>st (now, msg). handleMessage now msg st) st events)) = 4
         \<and> (\<forall>b \<in> set (dataRef (foldl (\<lambda>st (now, msg). handleMessage now msg st) st events)).
               ring_inv WINDOW_SIZE b)" for st
  proof (induction events arbitrary: st)
    case Nil
    then show ?case by simp
  next
    case (Cons ev events)
    obtain now msg where ev: "ev = (now, msg)" by (cases ev)
    have "length (dataRef (handleMessage now msg st)) = 4
          \<and> (\<forall>b \<in> set (dataRef (handleMessage now msg st)). ring_inv WINDOW_SIZE b)"
      using Cons.prems handleMessage_ring_inv [of st WINDOW_SIZE now msg]
      by (simp add: handleMessage_length)
    from Cons.IH [OF this] show ?case
      by (simp add: ev)
  qed
  with initial_state_ring_inv [OF assms] show ?thesis by blast
qed

text \<open>
  What a payload of the batch shape does to a channel's buffer, whether or not the
  handler ends in an error: all the readings of the channel are pushed, unless an
  earlier entry of \<open>channels\<close> is not an array, in which case none is.
\<close>

lemma buffer_gets_channel_or_nothing:
  assumes "k < length (dataRef st)" and "k < length cs" and "cs ! k = NumberArray vs"
  shows "dataRef (handleMessage now (Batch cs t) st) ! k =
           (if NotAnArray \<in> set (take k cs) then dataRef st ! k
            else foldl push (dataRef st ! k)
                   (map (\<lambda>j. \<lparr>timestamp = t + real j * sampleInterval, value = vs ! j\<rparr>)
                      [0..<length vs]))"
proof -
  have k: "k < length (dataRef (st\<lparr>lastTimestampRef := now\<rparr>))"
    using assms(1) by simp
  have "NotAnArray \<in> set (take (Suc k) cs) \<longleftrightarrow> NotAnArray \<in> set (take k cs)"
    using assms(2,3) by (simp add: take_Suc_conv_app_nth)
  then show ?thesis
    using channels_forEach_buffer_any [OF k, of t 0 cs] assms(2,3)
    by (simp add: dataRef_handleMessage try_block_def enumerate_map_nth)
qed

lemma retained_after_pushes:
  assumes "ring_inv c rb" and "0 < c" and "i < length ss" and "length ss - i \<le> c"
  shows "getArray (foldl push rb ss) ! (c - (length ss - i)) = Some (ss ! i)"
proof -
  have len: "length (getArray rb) = c"
    using assms(1) by (simp add: length_getArray ring_inv_def)
  have "getArray (foldl push rb ss) ! (c - (length ss - i))
        = (getArray rb @ map Some ss) ! (length ss + (c - (length ss - i)))"
    unfolding getArray_pushes [OF assms(1,2)] by (rule nth_drop) simp
  also have "length ss + (c - (length ss - i)) = c + i"
    using assms(3,4) by simp
  also have "(getArray rb @ map Some ss) ! (c + i) = Some (ss ! i)"
    using len assms(3) by (simp add: nth_append)
  finally show ?thesis .
qed

text \<open>
  The throttle at one call: it either runs the handler on the message at once or holds
  the message and leaves the component as it is; a held message is handled when the
  timer fires while it is still the held one.
\<close>

lemma onmessage_invoking:
  "shouldInvoke s now \<Longrightarrow>
   component (onmessage now msg s) = handleMessage now msg (component s)"
  by (simp add: onmessage_def leadingEdge_def invokeFunc_def setTimeout_def Let_def)

lemma onmessage_held:
  "\<not> shouldInvoke s now \<Longrightarrow>
   component (onmessage now msg s) = component s \<and> lastArgs (onmessage now msg s) = Some msg"
  by (simp add: onmessage_def setTimeout_def Let_def)

lemma timeout_trailing:
  assumes "lastArgs s = Some msg" and "shouldInvoke s now" and "\<exists>due \<in> set (timers s). due \<le> now"
  shows "component (step s (Timeout now)) = handleMessage now msg (component s)"
proof -
  from assms(3) obtain due rest where due: "filter (\<lambda>due. due \<le> now) (timers s) = due # rest"
    by (cases "filter (\<lambda>due. due \<le> now) (timers s)") (auto simp add: filter_empty_conv)
  have "shouldInvoke (s\<lparr>timers := remove1 due (timers s)\<rparr>) now"
    using assms(2) by (simp add: shouldInvoke_def split: option.splits)
  then show ?thesis
    using assms(1) due
    by (simp add: step_def timerExpired_def trailingEdge_def invokeFunc_def Let_def)
qed

lemma component_step:
  "component (step s ev) = component s
   \<or> (\<exists>now msg. component (step s ev) = handleMessage now msg (component s))
   \<or> component (step s ev) = (component s)\<lparr>console := console (component s) @ [TypeError]\<rparr>"
  by (auto simp add: step_def onmessage_def leadingEdge_def invokeFunc_def setTimeout_def
        timerExpired_def trailingEdge_def Let_def split: event.splits list.splits option.splits)

text \<open>
  Every state the system reaches from its initial state, by messages and timers, has
  four buffers, each a well-formed ring of capacity \<open>WINDOW_SIZE\<close>.
\<close>

lemma events_keep_buffers_well_formed:
  assumes "initial_system now0 = Inr s0"
  shows "length (dataRef (component (foldl step s0 events))) = 4
         \<and> (\<forall>b \<in> set (dataRef (component (foldl step s0 events))). ring_inv WINDOW_SIZE b)"
proof -
  have "length (dataRef (component s)) = 4
        \<and> (\<forall>b \<in> set (dataRef (component s)). ring_inv WINDOW_SIZE b) \<Longrightarrow>
        length (dataRef (component (foldl step s events))) = 4
         \<and> (\<forall>b \<in> set (dataRef (component (foldl step s events))). ring_inv WINDOW_SIZE b)" for s
  proof (induction events arbitrary: s)
    case Nil
    then show ?case by simp
  next
    case (Cons ev events)
    have "length (dataRef (component (step s ev))) = 4
          \<and> (\<forall>b \<in> set (dataRef (component (step s ev))). ring_inv WINDOW_SIZE b)"
      using component_step [of s ev] Cons.prems
        handleMessage_ring_inv [of "component s" WINDOW_SIZE]
      by (auto simp add: handleMessage_length)
    from Cons.IH [OF this] show ?case
      by simp
  qed
  moreover from assms obtain st0 where "initial_state now0 = Inr st0" and "component s0 = st0"
    by (auto simp add: initial_system_def split: sum.splits)
  ultimately show ?thesis
    using initial_state_ring_inv [of now0 st0] by blast
qed

lemma ring_inv_pos: "ring_inv c rb \<Longrightarrow> 0 < c"
  by (auto simp add: ring_inv_def)

lemma two_pushes_into_fresh_buffer:
  "getArray (push (push \<lparr>buffer = replicate 500 (Some \<lparr>timestamp = 0, value = 0\<rparr>), pointer = Finite 0, capacity = 500\<rparr> a) b)
     = replicate 498 (Some \<lparr>timestamp = 0, value = 0\<rparr>) @ [Some a, Some b]"
proof -
  let ?B = "\<lparr>buffer = replicate 500 (Some \<lparr>timestamp = 0, value = 0\<rparr>), pointer = Finite 0, capacity = 500\<rparr>"
  have inv: "ring_inv 500 ?B"
    by (simp add: ring_inv_def)
  from getArray_pushes [OF inv, of "[a, b]"] show ?thesis
    by (simp add: getArray_def)
qed

lemma one_push_into_fresh_buffer:
  "getArray (push \<lparr>buffer = replicate 500 (Some \<lparr>timestamp = 0, value = 0\<rparr>), pointer = Finite 0, capacity = 500\<rparr> a)
     = replicate 499 (Some \<lparr>timestamp = 0, value = 0\<rparr>) @ [Some a]"
proof -
  let ?B = "\<lparr>buffer = replicate 500 (Some \<lparr>timestamp = 0, value = 0\<rparr>), pointer = Finite 0, capacity = 500\<rparr>"
  have inv: "ring_inv 500 ?B"
    by (simp add: ring_inv_def)
  from getArray_pushes [OF inv, of "[a]"] show ?thesis
    by (simp add: getArray_def)
qed

lemma getArray_fresh_buffer:
  "getArray \<lparr>buffer = replicate 500 (Some \<lparr>timestamp = 0, value = 0\<rparr>), pointer = Finite 0, capacity = 500\<rparr>
     = replicate 500 (Some \<lparr>timestamp = 0, value = 0\<rparr>)"
  by (simp add: getArray_def)

text \<open>
  Claim C2, as far as it holds. A batch received on the socket passes the throttle: when
  the throttle invokes (no call before, or 32 ms since the latest call or invocation)
  the handler runs on the batch at once; otherwise the batch is held and the buffers
  stay as they are, and the handler runs on the held batch when the timer fires with it
  still held. When the handler runs on a batch (per-channel arrays of readings), then for
  every channel index \<open>k < 4\<close> the readings of \<open>channels[k]\<close> are pushed, in order and none
  left out, into the \<open>k\<close>-th ring buffer, so that \<open>getArray\<close> of that buffer is what it was
  with the new samples appended and as many of the oldest dropped; a buffer without a
  channel in the batch is left as it was, and there are still four buffers.
\<close>
theorem passed_batch_readings_pushed:
  assumes "length (dataRef (component s)) = 4"
    and "\<forall>b \<in> set (dataRef (component s)). ring_inv c b"
    and "k < 4"
  shows "(shouldInvoke s now \<longrightarrow>
            component (onmessage now msg s) = handleMessage now msg (component s))
         \<and> (\<not> shouldInvoke s now \<longrightarrow>
              component (onmessage now msg s) = component s
              \<and> lastArgs (onmessage now msg s) = Some msg)
         \<and> (lastArgs s = Some msg \<and> shouldInvoke s now \<and> (\<exists>due \<in> set (timers s). due \<le> now) \<longrightarrow>
              component (step s (Timeout now)) = handleMessage now msg (component s))
         \<and> length (dataRef (handleMessage now (Batch (map NumberArray vss) t) (component s))) = 4
         \<and> dataRef (handleMessage now (Batch (map NumberArray vss) t) (component s)) ! k =
             (if k < length vss
              then foldl push (dataRef (component s) ! k)
                     (map (\<lambda>j. \<lparr>timestamp = t + real j * sampleInterval, value = vss ! k ! j\<rparr>)
                        [0..<length (vss ! k)])
              else dataRef (component s) ! k)
         \<and> getArray (dataRef (handleMessage now (Batch (map NumberArray vss) t) (component s)) ! k) =
             (if k < length vss
              then drop (length (vss ! k))
                     (getArray (dataRef (component s) ! k)
                      @ map (\<lambda>j. Some \<lparr>timestamp = t + real j * sampleInterval, value = vss ! k ! j\<rparr>)
                          [0..<length (vss ! k)])
              else getArray (dataRef (component s) ! k))"
proof -
  let ?st = "component s"
  let ?S = "map (\<lambda>j. \<lparr>timestamp = t + real j * sampleInterval, value = vss ! k ! j\<rparr>)
              [0..<length (vss ! k)]"
  have k: "k < length (dataRef (?st\<lparr>lastTimestampRef := now\<rparr>))"
    using assms(1,3) by simp
  have len: "length (dataRef (handleMessage now (Batch (map NumberArray vss) t) ?st)) = 4"
    using assms(1) by (simp only: handleMessage_length)
  have buf: "dataRef (handleMessage now (Batch (map NumberArray vss) t) ?st) ! k =
             (if k < length vss then foldl push (dataRef ?st ! k) ?S else dataRef ?st ! k)"
    using channels_forEach_buffers [OF k, of t 0 vss]
    by (simp add: dataRef_handleMessage try_block_def enumerate_map_nth)
  have inv: "ring_inv c (dataRef ?st ! k)"
    using assms by simp
  have "getArray (foldl push (dataRef ?st ! k) ?S) =
        drop (length ?S) (getArray (dataRef ?st ! k) @ map Some ?S)"
    using inv ring_inv_pos [OF inv] by (rule getArray_pushes)
  then have arr: "getArray (dataRef (handleMessage now (Batch (map NumberArray vss) t) ?st) ! k) =
             (if k < length vss
              then drop (length (vss ! k))
                     (getArray (dataRef ?st ! k)
                      @ map (\<lambda>j. Some \<lparr>timestamp = t + real j * sampleInterval, value = vss ! k ! j\<rparr>)
                          [0..<length (vss ! k)])
              else getArray (dataRef ?st ! k))"
    by (simp add: buf comp_def)
  from onmessage_invoking [of s now msg] onmessage_held [of s now msg]
    timeout_trailing [of s msg now] len buf arr
  show ?thesis by blast
qed

theorem passed_batch_readings_pushed_witness:
  "length (dataRef (component
     \<lparr>component =
        \<lparr>dataRef = [\<lparr>buffer = replicate 500 (Some \<lparr>timestamp = 0, value = 0\<rparr>), pointer = Finite 0, capacity = 500\<rparr>,
          \<lparr>buffer = replicate 500 (Some \<lparr>timestamp = 0, value = 0\<rparr>), pointer = Finite 0, capacity = 500\<rparr>,
          \<lparr>buffer = replicate 500 (Some \<lparr>timestamp = 0, value = 0\<rparr>), pointer = Finite 0, capacity = 500\<rparr>,
          \<lparr>buffer = replicate 500 (Some \<lparr>timestamp = 0, value = 0\<rparr>), pointer = Finite 0, capacity = 500\<rparr>],
        canvasRefs = [False, False, False, False], lastTimestampRef = 0, console = []\<rparr>,
      lastArgs = None, lastCallTime = None, lastInvokeTime = 0, timerId = None, timers = []\<rparr>)) = 4
   \<and> ring_inv 500 \<lparr>buffer = replicate 500 (Some \<lparr>timestamp = 0, value = 0\<rparr>), pointer = Finite 0, capacity = 500\<rparr>
   \<and> (0::nat) < 4
   \<and> shouldInvoke
     \<lparr>component =
        \<lparr>dataRef = [\<lparr>buffer = replicate 500 (Some \<lparr>timestamp = 0, value = 0\<rparr>), pointer = Finite 0, capacity = 500\<rparr>,
          \<lparr>buffer = replicate 500 (Some \<lparr>timestamp = 0, value = 0\<rparr>), pointer = Finite 0, capacity = 500\<rparr>,
          \<lparr>buffer = replicate 500 (Some \<lparr>timestamp = 0, value = 0\<rparr>), pointer = Finite 0, capacity = 500\<rparr>,
          \<lparr>buffer = replicate 500 (Some \<lparr>timestamp = 0, value = 0\<rparr>), pointer = Finite 0, capacity = 500\<rparr>],
        canvasRefs = [False, False, False, False], lastTimestampRef = 0, console = []\<rparr>,
      lastArgs = None, lastCallTime = None, lastInvokeTime = 0, timerId = None, timers = []\<rparr> 1000
   \<and> getArray (dataRef (component (onmessage 1000 (Batch (map NumberArray [[0.5, 0.25]]) 100)
     \<lparr>component =
        \<lparr>dataRef = [\<lparr>buffer = replicate 500 (Some \<lparr>timestamp = 0, value = 0\<rparr>), pointer = Finite 0, capacity = 500\<rparr>,
          \<lparr>buffer = replicate 500 (Some \<lparr>timestamp = 0, value = 0\<rparr>), pointer = Finite 0, capacity = 500\<rparr>,
          \<lparr>buffer = replicate 500 (Some \<lparr>timestamp = 0, value = 0\<rparr>), pointer = Finite 0, capacity = 500\<rparr>,
          \<lparr>buffer = replicate 500 (Some \<lparr>timestamp = 0, value = 0\<rparr>), pointer = Finite 0, capacity = 500\<rparr>],
        canvasRefs = [False, False, False, False], lastTimestampRef = 0, console = []\<rparr>,
      lastArgs = None, lastCallTime = None, lastInvokeTime = 0, timerId = None, timers = []\<rparr>)) ! 0)
     = replicate 498 (Some \<lparr>timestamp = 0, value = 0\<rparr>)
       @ [Some \<lparr>timestamp = 100, value = 0.5\<rparr>, Some \<lparr>timestamp = 104, value = 0.25\<rparr>]"
proof -
  let ?B = "\<lparr>buffer = replicate 500 (Some \<lparr>timestamp = 0, value = 0\<rparr>), pointer = Finite 0, capacity = 500\<rparr>"
  let ?SYS = "\<lparr>component =
        \<lparr>dataRef = [\<lparr>buffer = replicate 500 (Some \<lparr>timestamp = 0, value = 0\<rparr>), pointer = Finite 0, capacity = 500\<rparr>,
          \<lparr>buffer = replicate 500 (Some \<lparr>timestamp = 0, value = 0\<rparr>), pointer = Finite 0, capacity = 500\<rparr>,
          \<lparr>buffer = replicate 500 (Some \<lparr>timestamp = 0, value = 0\<rparr>), pointer = Finite 0, capacity = 500\<rparr>,
          \<lparr>buffer = replicate 500 (Some \<lparr>timestamp = 0, value = 0\<rparr>), pointer = Finite 0, capacity = 500\<rparr>],
        canvasRefs = [False, False, False, False], lastTimestampRef = 0, console = []\<rparr>,
      lastArgs = None, lastCallTime = None, lastInvokeTime = 0, timerId = None, timers = []\<rparr>"
  have len: "length (dataRef (component ?SYS)) = 4" and k: "(0::nat) < 4"
    by simp_all
  have inv: "ring_inv 500 ?B"
    by (simp add: ring_inv_def)
  then have all: "\<forall>b \<in> set (dataRef (component ?SYS)). ring_inv 500 b"
    by simp
  have go: "shouldInvoke ?SYS 1000"
    by (simp add: shouldInvoke_def)
  have idx: "[0..<2] = [0, 1]"
    by (simp add: upt_rec)
  note T = passed_batch_readings_pushed [OF len all k, of 1000
      "Batch (map NumberArray [[0.5, 0.25]]) 100" "[[0.5, 0.25]]" 100]
  note c1 = T [THEN conjunct1, THEN mp, OF go]
  note arr = T [THEN conjunct2, THEN conjunct2, THEN conjunct2, THEN conjunct2, THEN conjunct2]
  have "getArray (dataRef (component (onmessage 1000 (Batch (map NumberArray [[0.5, 0.25]]) 100) ?SYS)) ! 0)
     = replicate 498 (Some \<lparr>timestamp = 0, value = 0\<rparr>)
       @ [Some \<lparr>timestamp = 100, value = 0.5\<rparr>, Some \<lparr>timestamp = 104, value = 0.25\<rparr>]"
    unfolding c1 arr by (simp add: idx sampleInterval_def SAMPLE_RATE_def getArray_def)
  with len inv k go show ?thesis by (intro conjI)
qed

text \<open>
  Claim C2 as stated fails in two ways. Three batches arrive within 32 ms: the first is
  handled at once, the second is held and then replaced by the third, and the timer
  runs the handler on the third; the reading of the second is in no buffer and nothing
  is left pending. And a batch with five channels: the four buffers each receive their
  channel's reading, the reading of \<open>channels[4]\<close> is in no buffer, and the TypeError of
  \<open>dataRef.current[4].push\<close> is logged.
\<close>
theorem throttled_and_fifth_channel_dropped_counterexample:
  "initial_system 0 = Inr
     \<lparr>component =
        \<lparr>dataRef = [\<lparr>buffer = replicate 500 (Some \<lparr>timestamp = 0, value = 0\<rparr>), pointer = Finite 0, capacity = 500\<rparr>,
          \<lparr>buffer = replicate 500 (Some \<lparr>timestamp = 0, value = 0\<rparr>), pointer = Finite 0, capacity = 500\<rparr>,
          \<lparr>buffer = replicate 500 (Some \<lparr>timestamp = 0, value = 0\<rparr>), pointer = Finite 0, capacity = 500\<rparr>,
          \<lparr>buffer = replicate 500 (Some \<lparr>timestamp = 0, value = 0\<rparr>), pointer = Finite 0, capacity = 500\<rparr>],
        canvasRefs = [False, False, False, False], lastTimestampRef = 0, console = []\<rparr>,
      lastArgs = None, lastCallTime = None, lastInvokeTime = 0, timerId = None, timers = []\<rparr>
   \<and> component (foldl step
     \<lparr>component =
        \<lparr>dataRef = [\<lparr>buffer = replicate 500 (Some \<lparr>timestamp = 0, value = 0\<rparr>), pointer = Finite 0, capacity = 500\<rparr>,
          \<lparr>buffer = replicate 500 (Some \<lparr>timestamp = 0, value = 0\<rparr>), pointer = Finite 0, capacity = 500\<rparr>,
          \<lparr>buffer = replicate 500 (Some \<lparr>timestamp = 0, value = 0\<rparr>), pointer = Finite 0, capacity = 500\<rparr>,
          \<lparr>buffer = replicate 500 (Some \<lparr>timestamp = 0, value = 0\<rparr>), pointer = Finite 0, capacity = 500\<rparr>],
        canvasRefs = [False, False, False, False], lastTimestampRef = 0, console = []\<rparr>,
      lastArgs = None, lastCallTime = None, lastInvokeTime = 0, timerId = None, timers = []\<rparr>
       [Message 1000 (Batch [NumberArray [1]] 100), Message 1010 (Batch [NumberArray [2]] 110),
        Message 1020 (Batch [NumberArray [3]] 120), Timeout 1032])
     = \<lparr>dataRef =
          [push (push \<lparr>buffer = replicate 500 (Some \<lparr>timestamp = 0, value = 0\<rparr>), pointer = Finite 0, capacity = 500\<rparr>
             \<lparr>timestamp = 100, value = 1\<rparr>) \<lparr>timestamp = 120, value = 3\<rparr>,
           \<lparr>buffer = replicate 500 (Some \<lparr>timestamp = 0, value = 0\<rparr>), pointer = Finite 0, capacity = 500\<rparr>,
           \<lparr>buffer = replicate 500 (Some \<lparr>timestamp = 0, value = 0\<rparr>), pointer = Finite 0, capacity = 500\<rparr>,
           \<lparr>buffer = replicate 500 (Some \<lparr>timestamp = 0, value = 0\<rparr>), pointer = Finite 0, capacity = 500\<rparr>],
        canvasRefs = [False, False, False, False], lastTimestampRef = 1032, console = []\<rparr>
   \<and> map getArray (dataRef (component (foldl step
     \<lparr>component =
        \<lparr>dataRef = [\<lparr>buffer = replicate 500 (Some \<lparr>timestamp = 0, value = 0\<rparr>), pointer = Finite 0, capacity = 500\<rparr>,
          \<lparr>buffer = replicate 500 (Some \<lparr>timestamp = 0, value = 0\<rparr>), pointer = Finite 0, capacity = 500\<rparr>,
          \<lparr>buffer = replicate 500 (Some \<lparr>timestamp = 0, value = 0\<rparr>), pointer = Finite 0, capacity = 500\<rparr>,
          \<lparr>buffer = replicate 500 (Some \<lparr>timestamp = 0, value = 0\<rparr>), pointer = Finite 0, capacity = 500\<rparr>],
        canvasRefs = [False, False, False, False], lastTimestampRef = 0, console = []\<rparr>,
      lastArgs = None, lastCallTime = None, lastInvokeTime = 0, timerId = None, timers = []\<rparr>
       [Message 1000 (Batch [NumberArray [1]] 100), Message 1010 (Batch [NumberArray [2]] 110),
        Message 1020 (Batch [NumberArray [3]] 120), Timeout 1032])))
     = [replicate 498 (Some \<lparr>timestamp = 0, value = 0\<rparr>)
          @ [Some \<lparr>timestamp = 100, value = 1\<rparr>, Some \<lparr>timestamp = 120, value = 3\<rparr>],
        replicate 500 (Some \<lparr>timestamp = 0, value = 0\<rparr>),
        replicate 500 (Some \<lparr>timestamp = 0, value = 0\<rparr>),
        replicate 500 (Some \<lparr>timestamp = 0, value = 0\<rparr>)]
   \<and> lastArgs (foldl step
     \<lparr>component =
        \<lparr>dataRef = [\<lparr>buffer = replicate 500 (Some \<lparr>timestamp = 0, value = 0\<rparr>), pointer = Finite 0, capacity = 500\<rparr>,
          \<lparr>buffer = replicate 500 (Some \<lparr>timestamp = 0, value = 0\<rparr>), pointer = Finite 0, capacity = 500\<rparr>,
          \<lparr>buffer = replicate 500 (Some \<lparr>timestamp = 0, value = 0\<rparr>), pointer = Finite 0, capacity = 500\<rparr>,
          \<lparr>buffer = replicate 500 (Some \<lparr>timestamp = 0, value = 0\<rparr>), pointer = Finite 0, capacity = 500\<rparr>],
        canvasRefs = [False, False, False, False], lastTimestampRef = 0, console = []\<rparr>,
      lastArgs = None, lastCallTime = None, lastInvokeTime = 0, timerId = None, timers = []\<rparr>
       [Message 1000 (Batch [NumberArray [1]] 100), Message 1010 (Batch [NumberArray [2]] 110),
        Message 1020 (Batch [NumberArray [3]] 120), Timeout 1032]) = None
   \<and> timers (foldl step
     \<lparr>component =
        \<lparr>dataRef = [\<lparr>buffer = replicate 500 (Some \<lparr>timestamp = 0, value = 0\<rparr>), pointer = Finite 0, capacity = 500\<rparr>,
          \<lparr>buffer = replicate 500 (Some \<lparr>timestamp = 0, value = 0\<rparr>), pointer = Finite 0, capacity = 500\<rparr>,
          \<lparr>buffer = replicate 500 (Some \<lparr>timestamp = 0, value = 0\<rparr>), pointer = Finite 0, capacity = 500\<rparr>,
          \<lparr>buffer = replicate 500 (Some \<lparr>timestamp = 0, value = 0\<rparr>), pointer = Finite 0, capacity = 500\<rparr>],
        canvasRefs = [False, False, False, False], lastTimestampRef = 0, console = []\<rparr>,
      lastArgs = None, lastCallTime = None, lastInvokeTime = 0, timerId = None, timers = []\<rparr>
       [Message 1000 (Batch [NumberArray [1]] 100), Message 1010 (Batch [NumberArray [2]] 110),
        Message 1020 (Batch [NumberArray [3]] 120), Timeout 1032]) = []
   \<and> component (onmessage 1000
        (Batch [NumberArray [1], NumberArray [2], NumberArray [3], NumberArray [4], NumberArray [5]] 100)
     \<lparr>component =
        \<lparr>dataRef = [\<lparr>buffer = replicate 500 (Some \<lparr>timestamp = 0, value = 0\<rparr>), pointer = Finite 0, capacity = 500\<rparr>,
          \<lparr>buffer = replicate 500 (Some \<lparr>timestamp = 0, value = 0\<rparr>), pointer = Finite 0, capacity = 500\<rparr>,
          \<lparr>buffer = replicate 500 (Some \<lparr>timestamp = 0, value = 0\<rparr>), pointer = Finite 0, capacity = 500\<rparr>,
          \<lparr>buffer = replicate 500 (Some \<lparr>timestamp = 0, value = 0\<rparr>), pointer = Finite 0, capacity = 500\<rparr>],
        canvasRefs = [False, False, False, False], lastTimestampRef = 0, console = []\<rparr>,
      lastArgs = None, lastCallTime = None, lastInvokeTime = 0, timerId = None, timers = []\<rparr>)
     = \<lparr>dataRef =
          [push \<lparr>buffer = replicate 500 (Some \<lparr>timestamp = 0, value = 0\<rparr>), pointer = Finite 0, capacity = 500\<rparr> \<lparr>timestamp = 100, value = 1\<rparr>,
           push \<lparr>buffer = replicate 500 (Some \<lparr>timestamp = 0, value = 0\<rparr>), pointer = Finite 0, capacity = 500\<rparr> \<lparr>timestamp = 100, value = 2\<rparr>,
           push \<lparr>buffer = replicate 500 (Some \<lparr>timestamp = 0, value = 0\<rparr>), pointer = Finite 0, capacity = 500\<rparr> \<lparr>timestamp = 100, value = 3\<rparr>,
           push \<lparr>buffer = replicate 500 (Some \<lparr>timestamp = 0, value = 0\<rparr>), pointer = Finite 0, capacity = 500\<rparr> \<lparr>timestamp = 100, value = 4\<rparr>],
        canvasRefs = [False, False, False, False], lastTimestampRef = 1000, console = [TypeError]\<rparr>
   \<and> map getArray (dataRef (component (onmessage 1000
        (Batch [NumberArray [1], NumberArray [2], NumberArray [3], NumberArray [4], NumberArray [5]] 100)
     \<lparr>component =
        \<lparr>dataRef = [\<lparr>buffer = replicate 500 (Some \<lparr>timestamp = 0, value = 0\<rparr>), pointer = Finite 0, capacity = 500\<rparr>,
          \<lparr>buffer = replicate 500 (Some \<lparr>timestamp = 0, value = 0\<rparr>), pointer = Finite 0, capacity = 500\<rparr>,
          \<lparr>buffer = replicate 500 (Some \<lparr>timestamp = 0, value = 0\<rparr>), pointer = Finite 0, capacity = 500\<rparr>,
          \<lparr>buffer = replicate 500 (Some \<lparr>timestamp = 0, value = 0\<rparr>), pointer = Finite 0, capacity = 500\<rparr>],
        canvasRefs = [False, False, False, False], lastTimestampRef = 0, console = []\<rparr>,
      lastArgs = None, lastCallTime = None, lastInvokeTime = 0, timerId = None, timers = []\<rparr>)))
     = [replicate 499 (Some \<lparr>timestamp = 0, value = 0\<rparr>) @ [Some \<lparr>timestamp = 100, value = 1\<rparr>],
        replicate 499 (Some \<lparr>timestamp = 0, value = 0\<rparr>) @ [Some \<lparr>timestamp = 100, value = 2\<rparr>],
        replicate 499 (Some \<lparr>timestamp = 0, value = 0\<rparr>) @ [Some \<lparr>timestamp = 100, value = 3\<rparr>],
        replicate 499 (Some \<lparr>timestamp = 0, value = 0\<rparr>) @ [Some \<lparr>timestamp = 100, value = 4\<rparr>]]"
  by (simp add: initial_system_def initial_state_def RingBuffer_new_def WINDOW_SIZE_eq replicate_4
        two_pushes_into_fresh_buffer one_push_into_fresh_buffer getArray_fresh_buffer
        step_def onmessage_def shouldInvoke_def leadingEdge_def invokeFunc_def setTimeout_def
        timerExpired_def trailingEdge_def remainingWait_def wait_def maxWait_def Let_def
        handleMessage_def try_block_def js_nth_def)


text \<open>
  Claim C4: when a batch message with base timestamp \<open>t\<close> is processed (the \<open>try\<close>
  completes without an error), the \<open>i\<close>-th reading of every channel array is pushed into
  that channel's buffer as the sample with the reading as its value and
  \<open>t + i * (1000 / 250)\<close> as its timestamp; and where the buffer is a well-formed ring of
  capacity \<open>c\<close> and the reading is among the last \<open>c\<close> of its array, \<open>getArray\<close> holds
  that sample afterwards, at the position counted from the newest.
\<close>
theorem processed_batch_samples:
  assumes "try_block now (Batch cs t) st = (None, st')"
    and "k < length cs" and "cs ! k = NumberArray vs" and "i < length vs"
  shows "handleMessage now (Batch cs t) st = st'
         \<and> k < length (dataRef st)
         \<and> dataRef st' ! k =
             foldl push (dataRef st ! k)
               (map (\<lambda>j. \<lparr>timestamp = t + real j * (1000 / 250), value = vs ! j\<rparr>) [0..<length vs])
         \<and> (\<forall>c. ring_inv c (dataRef st ! k) \<and> 0 < c \<and> length vs - i \<le> c \<longrightarrow>
               getArray (dataRef st' ! k) ! (c - (length vs - i))
                 = Some \<lparr>timestamp = t + real i * (1000 / 250), value = vs ! i\<rparr>)"
proof -
  let ?st0 = "st\<lparr>lastTimestampRef := now\<rparr>"
  let ?ss = "map (\<lambda>j. \<lparr>timestamp = t + real j * (1000 / 250), value = vs ! j\<rparr>) [0..<length vs]"
  have run: "channels_forEach t 0 cs ?st0 = (None, st')"
    using assms(1) by (simp add: try_block_def)
  then have none: "fst (channels_forEach t 0 cs ?st0) = None" by simp
  from channels_forEach_completes [OF none]
  have arrays: "NotAnArray \<notin> set cs"
    and has_buffer: "\<And>m ws. m < length cs \<Longrightarrow> cs ! m = NumberArray ws \<Longrightarrow> ws \<noteq> [] \<Longrightarrow>
                       m < length (dataRef st)"
    by auto
  from assms(4) have "vs \<noteq> []" by auto
  with has_buffer assms(2,3) have k: "k < length (dataRef st)" by blast
  from no_NotAnArray_map [OF arrays] obtain vss where vss: "cs = map NumberArray vss" ..
  with assms(2,3) have kv: "k < length vss" "vss ! k = vs" by auto
  have "dataRef (snd (channels_forEach t 0 (map NumberArray vss) ?st0)) ! k =
        foldl push (dataRef st ! k)
          (map (\<lambda>j. \<lparr>timestamp = t + real j * sampleInterval, value = vs ! j\<rparr>) [0..<length vs])"
    using channels_forEach_buffers [of k ?st0 t 0 vss] k kv
    by (simp add: enumerate_map_nth)
  then have stored: "dataRef st' ! k = foldl push (dataRef st ! k) ?ss"
    using run vss by (simp add: sampleInterval_def SAMPLE_RATE_def)
  have kept: "getArray (dataRef st' ! k) ! (c - (length vs - i))
                = Some \<lparr>timestamp = t + real i * (1000 / 250), value = vs ! i\<rparr>"
    if "ring_inv c (dataRef st ! k)" and "0 < c" and "length vs - i \<le> c" for c
    using retained_after_pushes [OF that(1,2), of i ?ss] that(3) assms(4)
    by (simp add: stored)
  have "handleMessage now (Batch cs t) st = st'"
    using assms(1) by (simp add: handleMessage_def)
  with k stored kept show ?thesis by blast
qed

theorem processed_batch_samples_witness:
  "try_block 9 (Batch [NumberArray [], NumberArray [0.5, 0.25]] 100)
     \<lparr>dataRef = [\<lparr>buffer = replicate 500 (Some \<lparr>timestamp = 0, value = 0\<rparr>), pointer = Finite 0, capacity = 500\<rparr>,
          \<lparr>buffer = replicate 500 (Some \<lparr>timestamp = 0, value = 0\<rparr>), pointer = Finite 0, capacity = 500\<rparr>,
          \<lparr>buffer = replicate 500 (Some \<lparr>timestamp = 0, value = 0\<rparr>), pointer = Finite 0, capacity = 500\<rparr>,
          \<lparr>buffer = replicate 500 (Some \<lparr>timestamp = 0, value = 0\<rparr>), pointer = Finite 0, capacity = 500\<rparr>],
        canvasRefs = [False, False, False, False], lastTimestampRef = 0, console = []\<rparr>
   = (None,
      \<lparr>dataRef = [\<lparr>buffer = replicate 500 (Some \<lparr>timestamp = 0, value = 0\<rparr>), pointer = Finite 0, capacity = 500\<rparr>,
          push (push \<lparr>buffer = replicate 500 (Some \<lparr>timestamp = 0, value = 0\<rparr>), pointer = Finite 0, capacity = 500\<rparr>
            \<lparr>timestamp = 100, value = 0.5\<rparr>) \<lparr>timestamp = 104, value = 0.25\<rparr>,
          \<lparr>buffer = replicate 500 (Some \<lparr>timestamp = 0, value = 0\<rparr>), pointer = Finite 0, capacity = 500\<rparr>,
          \<lparr>buffer = replicate 500 (Some \<lparr>timestamp = 0, value = 0\<rparr>), pointer = Finite 0, capacity = 500\<rparr>],
        canvasRefs = [False, False, False, False], lastTimestampRef = 9, console = []\<rparr>)
   \<and> (1::nat) < length [NumberArray [], NumberArray [0.5, 0.25]]
   \<and> [NumberArray [], NumberArray [0.5, 0.25]] ! 1 = NumberArray [0.5, 0.25]
   \<and> (1::nat) < length [0.5, 0.25 :: real]
   \<and> getArray (push (push \<lparr>buffer = replicate 500 (Some \<lparr>timestamp = 0, value = 0\<rparr>), pointer = Finite 0, capacity = 500\<rparr>
            \<lparr>timestamp = 100, value = 0.5\<rparr>) \<lparr>timestamp = 104, value = 0.25\<rparr>) ! 499
       = Some \<lparr>timestamp = 104, value = 0.25\<rparr>"
proof -
  let ?B = "\<lparr>buffer = replicate 500 (Some \<lparr>timestamp = 0, value = 0\<rparr>), pointer = Finite 0, capacity = 500\<rparr>"
  let ?S0 = "\<lparr>dataRef = [\<lparr>buffer = replicate 500 (Some \<lparr>timestamp = 0, value = 0\<rparr>), pointer = Finite 0, capacity = 500\<rparr>,
          \<lparr>buffer = replicate 500 (Some \<lparr>timestamp = 0, value = 0\<rparr>), pointer = Finite 0, capacity = 500\<rparr>,
          \<lparr>buffer = replicate 500 (Some \<lparr>timestamp = 0, value = 0\<rparr>), pointer = Finite 0, capacity = 500\<rparr>,
          \<lparr>buffer = replicate 500 (Some \<lparr>timestamp = 0, value = 0\<rparr>), pointer = Finite 0, capacity = 500\<rparr>],
        canvasRefs = [False, False, False, False], lastTimestampRef = 0, console = []\<rparr>"
  let ?S1 = "\<lparr>dataRef = [?B, push (push ?B \<lparr>timestamp = 100, value = 0.5\<rparr>) \<lparr>timestamp = 104, value = 0.25\<rparr>, ?B, ?B],
        canvasRefs = [False, False, False, False], lastTimestampRef = 9, console = []\<rparr>"
  have run: "try_block 9 (Batch [NumberArray [], NumberArray [0.5, 0.25]] 100) ?S0 = (None, ?S1)"
    by (simp add: try_block_def js_nth_def sampleInterval_def SAMPLE_RATE_def)
  have k: "(1::nat) < length [NumberArray [], NumberArray [0.5, 0.25]]"
    and ch: "[NumberArray [], NumberArray [0.5, 0.25]] ! 1 = NumberArray [0.5, 0.25]"
    and i: "(1::nat) < length [0.5, 0.25 :: real]"
    by simp_all
  have inv: "ring_inv 500 ?B"
    by (simp add: ring_inv_def)
  from processed_batch_samples [OF run k ch i]
  have "ring_inv 500 (dataRef ?S0 ! 1) \<and> (0::nat) < 500 \<and> length [0.5, 0.25 :: real] - 1 \<le> 500 \<longrightarrow>
        getArray (dataRef ?S1 ! 1) ! (500 - (length [0.5, 0.25 :: real] - 1))
          = Some \<lparr>timestamp = 100 + real (1::nat) * (1000 / 250), value = [0.5, 0.25] ! 1\<rparr>"
    by blast
  with inv have "getArray (dataRef ?S1 ! 1) ! 499 = Some \<lparr>timestamp = 104, value = 0.25\<rparr>"
    by simp
  with run k ch i show ?thesis by simp
qed









section \<open>The redraw: selection, order and coordinates\<close>

lemma filter_window_no_holes:
  "filter_window a b (map Some ss) = Inr (filter (\<lambda>s. a \<le> timestamp s \<and> timestamp s \<le> b) ss)"
  by (induction ss) simp_all

lemma insert_cmp_timestamp:
  "insert_cmp (\<lambda>a b. timestamp a - timestamp b) x ys = insort_key timestamp x ys"
  by (induction ys) simp_all

lemma sort_cmp_timestamp:
  "sort_cmp (\<lambda>a b. timestamp a - timestamp b) xs = sort_key timestamp xs"
  by (induction xs) (simp_all add: sort_cmp_def sort_key_def insert_cmp_timestamp)

lemma plot_Suc:
  "plot now (Suc i) ss =
     map (\<lambda>s. LineTo (GRAPH_WIDTH - ((now - timestamp s) * GRAPH_WIDTH / WINDOW_DURATION))
                  (yScale (value s))) ss"
  by (induction ss arbitrary: i) (simp_all add: Let_def)

lemma draw_channel_no_holes:
  assumes "js_nth canvases k = Some True" and "getArray buf = map Some ss"
  shows "draw_channel canvases now k buf =
     (None,
      DrawImage #
      (if 2 \<le> length (sort_key timestamp (filter (\<lambda>s. now - WINDOW_DURATION \<le> timestamp s \<and> timestamp s \<le> now) ss))
       then [BeginPath, StrokeStyle (js_nth CHANNEL_COLORS k), LineWidth 2]
            @ plot now 0 (sort_key timestamp (filter (\<lambda>s. now - WINDOW_DURATION \<le> timestamp s \<and> timestamp s \<le> now) ss))
            @ [Stroke]
       else []))"
  using assms by (simp add: draw_channel_def filter_window_no_holes sort_cmp_timestamp Let_def)

lemma no_holes_map_Some:
  "None \<notin> set xs \<Longrightarrow> \<exists>ys. xs = map Some ys"
proof (induction xs)
  case Nil
  then show ?case by simp
next
  case (Cons x xs)
  then obtain ys where "xs = map Some ys" by auto
  moreover from Cons.prems obtain y where "x = Some y" by (cases x) auto
  ultimately have "xs = map Some ys" and "x = Some y" by simp_all
  then have "x # xs = map Some (y # ys)" by simp
  then show ?case by (rule exI)
qed

lemma ring_inv_getArray:
  assumes "ring_inv c rb"
  shows "\<exists>ss. getArray rb = map Some ss"
proof -
  have "None \<notin> set (getArray rb)"
    using assms by (auto simp: ring_inv_def getArray_def dest: in_set_dropD in_set_takeD)
  then show ?thesis by (rule no_holes_map_Some)
qed

lemma draw_channel_completes:
  "ring_inv c buf \<Longrightarrow> fst (draw_channel canvases now k buf) = None"
proof -
  assume "ring_inv c buf"
  then obtain ss where "getArray buf = map Some ss"
    using ring_inv_getArray by blast
  then show ?thesis
    by (simp add: draw_channel_def filter_window_no_holes Let_def split: option.splits bool.splits)
qed

lemma draw_from_completes:
  "\<forall>b \<in> set bufs. ring_inv c b \<Longrightarrow>
   draw_from canvases now k0 bufs =
     (None, map (\<lambda>(j, b). snd (draw_channel canvases now j b)) (List.enumerate k0 bufs))"
proof (induction bufs arbitrary: k0)
  case Nil
  then show ?case by simp
next
  case (Cons b bufs)
  then have "ring_inv c b" by simp
  then have "fst (draw_channel canvases now k0 b) = None"
    by (rule draw_channel_completes)
  then obtain ops where "draw_channel canvases now k0 b = (None, ops)"
    by (cases "draw_channel canvases now k0 b") simp
  then show ?case
    using Cons by simp
qed

lemma draw_channel_of_draw:
  assumes "\<forall>b \<in> set (dataRef st). ring_inv c b" and "k < length (dataRef st)"
  shows "fst (draw now st) = None
         \<and> length (snd (draw now st)) = length (dataRef st)
         \<and> snd (draw now st) ! k = snd (draw_channel (canvasRefs st) now k (dataRef st ! k))"
  using assms(2) by (simp add: draw_def draw_from_completes [OF assms(1)] nth_enumerate_eq)


lemma plot_path:
  "plot now 0 samples =
     (case samples of
        [] \<Rightarrow> []
      | s # rest \<Rightarrow>
          MoveTo (GRAPH_WIDTH - ((now - timestamp s) * GRAPH_WIDTH / 2000)) (yScale (value s))
          # map (\<lambda>s. LineTo (GRAPH_WIDTH - ((now - timestamp s) * GRAPH_WIDTH / 2000))
                        (yScale (value s))) rest)"
  by (cases samples) (simp_all add: plot_Suc Let_def WINDOW_DURATION_def)

lemma draw_path:
  assumes "\<forall>b \<in> set (dataRef st). ring_inv c b"
    and "k < length (dataRef st)"
    and "js_nth (canvasRefs st) k = Some True"
    and "getArray (dataRef st ! k) = map Some ss"
    and "samples = sort_key timestamp (filter (\<lambda>s. now - 2000 \<le> timestamp s \<and> timestamp s \<le> now) ss)"
  shows "snd (draw now st) ! k =
           DrawImage #
           (if 2 \<le> length samples
            then [BeginPath, StrokeStyle (js_nth CHANNEL_COLORS k), LineWidth 2]
                 @ (case samples of
                      [] \<Rightarrow> []
                    | s # rest \<Rightarrow>
                        MoveTo (GRAPH_WIDTH - ((now - timestamp s) * GRAPH_WIDTH / 2000)) (yScale (value s))
                        # map (\<lambda>s. LineTo (GRAPH_WIDTH - ((now - timestamp s) * GRAPH_WIDTH / 2000))
                                      (yScale (value s))) rest)
                 @ [Stroke]
            else [])"
  using draw_channel_of_draw [OF assms(1,2), of now]
    draw_channel_no_holes [OF assms(3,4), of now]
  by (simp add: assms(5) WINDOW_DURATION_def plot_path)

text \<open>
  Claim C6: on a redraw at time \<open>now\<close>, for a channel whose canvas is mounted, the samples
  selected for drawing are exactly the buffered samples with timestamp in
  \<open>[now - 2000, now]\<close>; the path (issued when at least two are selected) has one vertex
  per selected sample, at \<open>x = GRAPH_WIDTH - ((now - timestamp) * GRAPH_WIDTH / 2000)\<close>;
  a sample of age \<open>0\<close> is at \<open>x = GRAPH_WIDTH\<close>, one of age \<open>2000\<close> at \<open>x = 0\<close>, and
  advancing \<open>now\<close> by \<open>d\<close> moves a sample left by \<open>d * GRAPH_WIDTH / 2000\<close>.
\<close>
theorem draw_selects_window:
  assumes "\<forall>b \<in> set (dataRef st). ring_inv c b"
    and "k < length (dataRef st)"
    and "js_nth (canvasRefs st) k = Some True"
    and "getArray (dataRef st ! k) = map Some ss"
  shows "\<exists>samples.
           mset samples = mset (filter (\<lambda>s. now - 2000 \<le> timestamp s \<and> timestamp s \<le> now) ss)
         \<and> snd (draw now st) ! k =
             DrawImage #
             (if 2 \<le> length samples
              then [BeginPath, StrokeStyle (js_nth CHANNEL_COLORS k), LineWidth 2]
                   @ (case samples of
                        [] \<Rightarrow> []
                      | s # rest \<Rightarrow>
                          MoveTo (GRAPH_WIDTH - ((now - timestamp s) * GRAPH_WIDTH / 2000)) (yScale (value s))
                          # map (\<lambda>s. LineTo (GRAPH_WIDTH - ((now - timestamp s) * GRAPH_WIDTH / 2000))
                                        (yScale (value s))) rest)
                   @ [Stroke]
              else [])
         \<and> (\<forall>v. plot now 0 [\<lparr>timestamp = now, value = v\<rparr>] = [MoveTo GRAPH_WIDTH (yScale v)])
         \<and> (\<forall>v. plot now 0 [\<lparr>timestamp = now - 2000, value = v\<rparr>] = [MoveTo 0 (yScale v)])
         \<and> (\<forall>s d. plot (now + d) 0 [s] =
               [MoveTo (GRAPH_WIDTH - ((now - timestamp s) * GRAPH_WIDTH / 2000) - d * GRAPH_WIDTH / 2000)
                  (yScale (value s))])"
proof -
  let ?samples = "sort_key timestamp (filter (\<lambda>s. now - 2000 \<le> timestamp s \<and> timestamp s \<le> now) ss)"
  have "mset ?samples = mset (filter (\<lambda>s. now - 2000 \<le> timestamp s \<and> timestamp s \<le> now) ss)"
    by simp
  moreover note draw_path [OF assms refl, of now]
  moreover have "plot now 0 [\<lparr>timestamp = now, value = v\<rparr>] = [MoveTo GRAPH_WIDTH (yScale v)]" for v
    by (simp add: Let_def WINDOW_DURATION_def)
  moreover have "plot now 0 [\<lparr>timestamp = now - 2000, value = v\<rparr>] = [MoveTo 0 (yScale v)]" for v
    by (simp add: Let_def WINDOW_DURATION_def)
  moreover have "plot (now + d) 0 [s] =
               [MoveTo (GRAPH_WIDTH - ((now - timestamp s) * GRAPH_WIDTH / 2000) - d * GRAPH_WIDTH / 2000)
                  (yScale (value s))]" for s d
    by (simp add: Let_def WINDOW_DURATION_def field_simps)
  ultimately show ?thesis by blast
qed

text \<open>
  Claim C7: on a redraw, the vertices of a channel's polyline are the in-window samples
  in nondecreasing timestamp order, hence with nondecreasing \<open>x\<close>.
\<close>
theorem polyline_in_timestamp_order:
  assumes "\<forall>b \<in> set (dataRef st). ring_inv c b"
    and "k < length (dataRef st)"
    and "js_nth (canvasRefs st) k = Some True"
    and "getArray (dataRef st ! k) = map Some ss"
  shows "\<exists>samples.
           sorted (map timestamp samples)
         \<and> sorted (map (\<lambda>s. GRAPH_WIDTH - ((now - timestamp s) * GRAPH_WIDTH / 2000)) samples)
         \<and> set samples = {s \<in> set ss. now - 2000 \<le> timestamp s \<and> timestamp s \<le> now}
         \<and> snd (draw now st) ! k =
             DrawImage #
             (if 2 \<le> length samples
              then [BeginPath, StrokeStyle (js_nth CHANNEL_COLORS k), LineWidth 2]
                   @ (case samples of
                        [] \<Rightarrow> []
                      | s # rest \<Rightarrow>
                          MoveTo (GRAPH_WIDTH - ((now - timestamp s) * GRAPH_WIDTH / 2000)) (yScale (value s))
                          # map (\<lambda>s. LineTo (GRAPH_WIDTH - ((now - timestamp s) * GRAPH_WIDTH / 2000))
                                        (yScale (value s))) rest)
                   @ [Stroke]
              else [])"
proof -
  let ?samples = "sort_key timestamp (filter (\<lambda>s. now - 2000 \<le> timestamp s \<and> timestamp s \<le> now) ss)"
  have by_time: "sorted (map timestamp ?samples)"
    by (rule sorted_sort_key)
  then have "sorted_wrt (\<lambda>a b. timestamp a \<le> timestamp b) ?samples"
    by (simp only: sorted_map)
  then have "sorted_wrt (\<lambda>a b. GRAPH_WIDTH - ((now - timestamp a) * GRAPH_WIDTH / 2000)
                              \<le> GRAPH_WIDTH - ((now - timestamp b) * GRAPH_WIDTH / 2000)) ?samples"
    by (rule sorted_wrt_mono_rel [rotated]) (simp add: GRAPH_WIDTH_def)
  then have by_x: "sorted (map (\<lambda>s. GRAPH_WIDTH - ((now - timestamp s) * GRAPH_WIDTH / 2000)) ?samples)"
    by (simp only: sorted_map)
  have members: "set ?samples = {s \<in> set ss. now - 2000 \<le> timestamp s \<and> timestamp s \<le> now}"
    by simp
  from by_time by_x members draw_path [OF assms refl, of now] show ?thesis by blast
qed

theorem draw_selects_window_witness:
  "ring_inv 3
     \<lparr>buffer = [Some \<lparr>timestamp = 1008, value = 1.5\<rparr>, Some \<lparr>timestamp = - 5000, value = 0\<rparr>,
                  Some \<lparr>timestamp = 1004, value = - 1.5\<rparr>],
        pointer = Finite 0, capacity = 3\<rparr>
   \<and> (0::nat) < length (dataRef
     \<lparr>dataRef = [\<lparr>buffer = [Some \<lparr>timestamp = 1008, value = 1.5\<rparr>, Some \<lparr>timestamp = - 5000, value = 0\<rparr>,
                  Some \<lparr>timestamp = 1004, value = - 1.5\<rparr>],
        pointer = Finite 0, capacity = 3\<rparr>],
      canvasRefs = [True], lastTimestampRef = 0, console = []\<rparr>)
   \<and> js_nth (canvasRefs
     \<lparr>dataRef = [\<lparr>buffer = [Some \<lparr>timestamp = 1008, value = 1.5\<rparr>, Some \<lparr>timestamp = - 5000, value = 0\<rparr>,
                  Some \<lparr>timestamp = 1004, value = - 1.5\<rparr>],
        pointer = Finite 0, capacity = 3\<rparr>],
      canvasRefs = [True], lastTimestampRef = 0, console = []\<rparr>) 0 = Some True
   \<and> getArray (dataRef
     \<lparr>dataRef = [\<lparr>buffer = [Some \<lparr>timestamp = 1008, value = 1.5\<rparr>, Some \<lparr>timestamp = - 5000, value = 0\<rparr>,
                  Some \<lparr>timestamp = 1004, value = - 1.5\<rparr>],
        pointer = Finite 0, capacity = 3\<rparr>],
      canvasRefs = [True], lastTimestampRef = 0, console = []\<rparr> ! 0)
     = map Some
         [\<lparr>timestamp = 1008, value = 1.5\<rparr>, \<lparr>timestamp = - 5000, value = 0\<rparr>,
          \<lparr>timestamp = 1004, value = - 1.5\<rparr>]
   \<and> (\<exists>samples.
           mset samples = mset (filter (\<lambda>s. 1010 - 2000 \<le> timestamp s \<and> timestamp s \<le> 1010) 
             [\<lparr>timestamp = 1008, value = 1.5\<rparr>, \<lparr>timestamp = - 5000, value = 0\<rparr>,
          \<lparr>timestamp = 1004, value = - 1.5\<rparr>])
         \<and> snd (draw 1010 
            \<lparr>dataRef = [\<lparr>buffer = [Some \<lparr>timestamp = 1008, value = 1.5\<rparr>, Some \<lparr>timestamp = - 5000, value = 0\<rparr>,
                  Some \<lparr>timestamp = 1004, value = - 1.5\<rparr>],
        pointer = Finite 0, capacity = 3\<rparr>],
      canvasRefs = [True], lastTimestampRef = 0, console = []\<rparr>) ! 0 =
             DrawImage #
             (if 2 \<le> length samples
              then [BeginPath, StrokeStyle (js_nth CHANNEL_COLORS 0), LineWidth 2]
                   @ (case samples of
                        [] \<Rightarrow> []
                      | s # rest \<Rightarrow>
                          MoveTo (GRAPH_WIDTH - ((1010 - timestamp s) * GRAPH_WIDTH / 2000)) (yScale (value s))
                          # map (\<lambda>s. LineTo (GRAPH_WIDTH - ((1010 - timestamp s) * GRAPH_WIDTH / 2000))
                                        (yScale (value s))) rest)
                   @ [Stroke]
              else [])
         \<and> (\<forall>v. plot 1010 0 [\<lparr>timestamp = 1010, value = v\<rparr>] = [MoveTo GRAPH_WIDTH (yScale v)])
         \<and> (\<forall>v. plot 1010 0 [\<lparr>timestamp = 1010 - 2000, value = v\<rparr>] = [MoveTo 0 (yScale v)])
         \<and> (\<forall>s d. plot (1010 + d) 0 [s] =
               [MoveTo (GRAPH_WIDTH - ((1010 - timestamp s) * GRAPH_WIDTH / 2000) - d * GRAPH_WIDTH / 2000)
                  (yScale (value s))]))
   \<and> snd (draw 1010
        \<lparr>dataRef = [\<lparr>buffer = [Some \<lparr>timestamp = 1008, value = 1.5\<rparr>, Some \<lparr>timestamp = - 5000, value = 0\<rparr>,
                  Some \<lparr>timestamp = 1004, value = - 1.5\<rparr>],
        pointer = Finite 0, capacity = 3\<rparr>],
      canvasRefs = [True], lastTimestampRef = 0, console = []\<rparr>) ! 0
     = [DrawImage, BeginPath, StrokeStyle (Some ''#2196f3''), LineWidth 2,
        MoveTo (1994 / 5) 100, LineTo (1998 / 5) 0, Stroke]"
proof -
  let ?B = "\<lparr>buffer = [Some \<lparr>timestamp = 1008, value = 1.5\<rparr>, Some \<lparr>timestamp = - 5000, value = 0\<rparr>,
                  Some \<lparr>timestamp = 1004, value = - 1.5\<rparr>],
        pointer = Finite 0, capacity = 3\<rparr>"
  let ?S = "\<lparr>dataRef = [\<lparr>buffer = [Some \<lparr>timestamp = 1008, value = 1.5\<rparr>, Some \<lparr>timestamp = - 5000, value = 0\<rparr>,
                  Some \<lparr>timestamp = 1004, value = - 1.5\<rparr>],
        pointer = Finite 0, capacity = 3\<rparr>],
      canvasRefs = [True], lastTimestampRef = 0, console = []\<rparr>"
  let ?ss = "[\<lparr>timestamp = 1008, value = 1.5\<rparr>, \<lparr>timestamp = - 5000, value = 0\<rparr>,
          \<lparr>timestamp = 1004, value = - 1.5\<rparr>]"
  have inv: "ring_inv 3 ?B"
    by (simp add: ring_inv_def)
  then have all: "\<forall>b \<in> set (dataRef ?S). ring_inv 3 b"
    by simp
  have k: "(0::nat) < length (dataRef ?S)"
    and canvas: "js_nth (canvasRefs ?S) 0 = Some True"
    and arr: "getArray (dataRef ?S ! 0) = map Some ?ss"
    by (simp_all add: js_nth_def getArray_def)
  have ops: "snd (draw 1010 ?S) ! 0
     = [DrawImage, BeginPath, StrokeStyle (Some ''#2196f3''), LineWidth 2,
        MoveTo (1994 / 5) 100, LineTo (1998 / 5) 0, Stroke]"
    by (simp add: draw_def draw_channel_def js_nth_def getArray_def sort_cmp_def
          WINDOW_DURATION_def GRAPH_WIDTH_def GRAPH_HEIGHT_def CHANNEL_COLORS_def yScale_def Let_def)
  note draw_selects_window [OF all k canvas arr, of 1010]
  with inv k canvas arr ops show ?thesis
    by (intro conjI)
qed

theorem polyline_in_timestamp_order_witness:
  "ring_inv 3
     \<lparr>buffer = [Some \<lparr>timestamp = 1008, value = 1.5\<rparr>, Some \<lparr>timestamp = - 5000, value = 0\<rparr>,
                  Some \<lparr>timestamp = 1004, value = - 1.5\<rparr>],
        pointer = Finite 0, capacity = 3\<rparr>
   \<and> (0::nat) < length (dataRef
     \<lparr>dataRef = [\<lparr>buffer = [Some \<lparr>timestamp = 1008, value = 1.5\<rparr>, Some \<lparr>timestamp = - 5000, value = 0\<rparr>,
                  Some \<lparr>timestamp = 1004, value = - 1.5\<rparr>],
        pointer = Finite 0, capacity = 3\<rparr>],
      canvasRefs = [True], lastTimestampRef = 0, console = []\<rparr>)
   \<and> js_nth (canvasRefs
     \<lparr>dataRef = [\<lparr>buffer = [Some \<lparr>timestamp = 1008, value = 1.5\<rparr>, Some \<lparr>timestamp = - 5000, value = 0\<rparr>,
                  Some \<lparr>timestamp = 1004, value = - 1.5\<rparr>],
        pointer = Finite 0, capacity = 3\<rparr>],
      canvasRefs = [True], lastTimestampRef = 0, console = []\<rparr>) 0 = Some True
   \<and> getArray (dataRef
     \<lparr>dataRef = [\<lparr>buffer = [Some \<lparr>timestamp = 1008, value = 1.5\<rparr>, Some \<lparr>timestamp = - 5000, value = 0\<rparr>,
                  Some \<lparr>timestamp = 1004, value = - 1.5\<rparr>],
        pointer = Finite 0, capacity = 3\<rparr>],
      canvasRefs = [True], lastTimestampRef = 0, console = []\<rparr> ! 0)
     = map Some
         [\<lparr>timestamp = 1008, value = 1.5\<rparr>, \<lparr>timestamp = - 5000, value = 0\<rparr>,
          \<lparr>timestamp = 1004, value = - 1.5\<rparr>]
   \<and> (\<exists>samples.
           sorted (map timestamp samples)
         \<and> sorted (map (\<lambda>s. GRAPH_WIDTH - ((1010 - timestamp s) * GRAPH_WIDTH / 2000)) samples)
         \<and> set samples = {s \<in> set 
             [\<lparr>timestamp = 1008, value = 1.5\<rparr>, \<lparr>timestamp = - 5000, value = 0\<rparr>,
          \<lparr>timestamp = 1004, value = - 1.5\<rparr>]. 1010 - 2000 \<le> timestamp s \<and> timestamp s \<le> 1010}
         \<and> snd (draw 1010 
            \<lparr>dataRef = [\<lparr>buffer = [Some \<lparr>timestamp = 1008, value = 1.5\<rparr>, Some \<lparr>timestamp = - 5000, value = 0\<rparr>,
                  Some \<lparr>timestamp = 1004, value = - 1.5\<rparr>],
        pointer = Finite 0, capacity = 3\<rparr>],
      canvasRefs = [True], lastTimestampRef = 0, console = []\<rparr>) ! 0 =
             DrawImage #
             (if 2 \<le> length samples
              then [BeginPath, StrokeStyle (js_nth CHANNEL_COLORS 0), LineWidth 2]
                   @ (case samples of
                        [] \<Rightarrow> []
                      | s # rest \<Rightarrow>
                          MoveTo (GRAPH_WIDTH - ((1010 - timestamp s) * GRAPH_WIDTH / 2000)) (yScale (value s))
                          # map (\<lambda>s. LineTo (GRAPH_WIDTH - ((1010 - timestamp s) * GRAPH_WIDTH / 2000))
                                        (yScale (value s))) rest)
                   @ [Stroke]
              else []))
   \<and> snd (draw 1010
        \<lparr>dataRef = [\<lparr>buffer = [Some \<lparr>timestamp = 1008, value = 1.5\<rparr>, Some \<lparr>timestamp = - 5000, value = 0\<rparr>,
                  Some \<lparr>timestamp = 1004, value = - 1.5\<rparr>],
        pointer = Finite 0, capacity = 3\<rparr>],
      canvasRefs = [True], lastTimestampRef = 0, console = []\<rparr>) ! 0
     = [DrawImage, BeginPath, StrokeStyle (Some ''#2196f3''), LineWidth 2,
        MoveTo (1994 / 5) 100, LineTo (1998 / 5) 0, Stroke]"
proof -
  let ?B = "\<lparr>buffer = [Some \<lparr>timestamp = 1008, value = 1.5\<rparr>, Some \<lparr>timestamp = - 5000, value = 0\<rparr>,
                  Some \<lparr>timestamp = 1004, value = - 1.5\<rparr>],
        pointer = Finite 0, capacity = 3\<rparr>"
  let ?S = "\<lparr>dataRef = [\<lparr>buffer = [Some \<lparr>timestamp = 1008, value = 1.5\<rparr>, Some \<lparr>timestamp = - 5000, value = 0\<rparr>,
                  Some \<lparr>timestamp = 1004, value = - 1.5\<rparr>],
        pointer = Finite 0, capacity = 3\<rparr>],
      canvasRefs = [True], lastTimestampRef = 0, console = []\<rparr>"
  let ?ss = "[\<lparr>timestamp = 1008, value = 1.5\<rparr>, \<lparr>timestamp = - 5000, value = 0\<rparr>,
          \<lparr>timestamp = 1004, value = - 1.5\<rparr>]"
  have inv: "ring_inv 3 ?B"
    by (simp add: ring_inv_def)
  then have all: "\<forall>b \<in> set (dataRef ?S). ring_inv 3 b"
    by simp
  have k: "(0::nat) < length (dataRef ?S)"
    and canvas: "js_nth (canvasRefs ?S) 0 = Some True"
    and arr: "getArray (dataRef ?S ! 0) = map Some ?ss"
    by (simp_all add: js_nth_def getArray_def)
  have ops: "snd (draw 1010 ?S) ! 0
     = [DrawImage, BeginPath, StrokeStyle (Some ''#2196f3''), LineWidth 2,
        MoveTo (1994 / 5) 100, LineTo (1998 / 5) 0, Stroke]"
    by (simp add: draw_def draw_channel_def js_nth_def getArray_def sort_cmp_def
          WINDOW_DURATION_def GRAPH_WIDTH_def GRAPH_HEIGHT_def CHANNEL_COLORS_def yScale_def Let_def)
  note polyline_in_timestamp_order [OF all k canvas arr, of 1010]
  with inv k canvas arr ops show ?thesis
    by (intro conjI)
qed

section \<open>The vertical scale in double precision\<close>

subsection \<open>Rounding: exponent, monotonicity, error\<close>

lemma rhe_of_int [simp]: "round_half_even (of_int n) = n"
  by (simp add: round_half_even_def)

lemma rhe_mono: "q \<le> q' \<Longrightarrow> round_half_even q \<le> round_half_even q'"
proof -
  assume le: "q \<le> q'"
  have fl: "\<lfloor>q\<rfloor> \<le> \<lfloor>q'\<rfloor>" using le by (rule floor_mono)
  have lo: "\<lfloor>x\<rfloor> \<le> round_half_even x" and hi: "round_half_even x \<le> \<lfloor>x\<rfloor> + 1" for x
    by (simp_all add: round_half_even_def Let_def)
  show ?thesis
  proof (cases "\<lfloor>q\<rfloor> = \<lfloor>q'\<rfloor>")
    case True
    with le show ?thesis
      by (auto simp add: round_half_even_def Let_def)
  next
    case False
    with fl have "\<lfloor>q\<rfloor> + 1 \<le> \<lfloor>q'\<rfloor>" by simp
    with hi [of q] lo [of q'] show ?thesis by linarith
  qed
qed

lemma rhe_error: "\<bar>of_int (round_half_even q) - q\<bar> \<le> 1 / 2"
  by (auto simp add: round_half_even_def Let_def)

lemma up_exp_spec:
  "1 \<le> a \<Longrightarrow> e \<le> 1024 \<Longrightarrow>
   e \<le> up_exp a e \<and> up_exp a e \<le> 1024
   \<and> 2 powi (up_exp a e - e) \<le> a
   \<and> (up_exp a e < 1024 \<longrightarrow> a < 2 powi (up_exp a e - e + 1))"
proof (induction a e rule: up_exp.induct)
  case (1 a e)
  show ?case
  proof (cases "2 \<le> a \<and> e < 1024")
    case True
    then have step: "up_exp a e = up_exp (a / 2) (e + 1)"
      by (subst up_exp.simps) simp
    from True have "1 \<le> a / 2" "e + 1 \<le> 1024" by simp_all
    from "1.IH" [OF True this]
    have ih: "e + 1 \<le> up_exp a e" "up_exp a e \<le> 1024"
      "2 powi (up_exp a e - (e + 1)) \<le> a / 2"
      "up_exp a e < 1024 \<longrightarrow> a / 2 < 2 powi (up_exp a e - (e + 1) + 1)"
      by (simp_all add: step)
    have p: "(2::real) powi (up_exp a e - e) = 2 * 2 powi (up_exp a e - (e + 1))"
      using power_int_add_1 [of "2::real" "up_exp a e - (e + 1)"] by (simp add: algebra_simps)
    have p': "(2::real) powi (up_exp a e - e + 1) = 2 * 2 powi (up_exp a e - (e + 1) + 1)"
      using power_int_add_1 [of "2::real" "up_exp a e - e"] by (simp add: algebra_simps)
    from ih show ?thesis
      unfolding p p' by auto
  next
    case False
    then have stop: "up_exp a e = e"
      by (subst up_exp.simps) auto
    with False "1.prems" show ?thesis by auto
  qed
qed

lemma down_exp_spec:
  "0 < a \<Longrightarrow> a < 2 \<Longrightarrow> - 1022 \<le> e \<Longrightarrow>
   - 1022 \<le> down_exp a e \<and> down_exp a e \<le> e
   \<and> a < 2 powi (down_exp a e - e + 1)
   \<and> (- 1022 < down_exp a e \<longrightarrow> 2 powi (down_exp a e - e) \<le> a)"
proof (induction a e rule: down_exp.induct)
  case (1 a e)
  show ?case
  proof (cases "a < 1 \<and> - 1022 < e")
    case True
    then have step: "down_exp a e = down_exp (2 * a) (e - 1)"
      by (subst down_exp.simps) simp
    from True "1.prems" have "0 < 2 * a" "2 * a < 2" "- 1022 \<le> e - 1" by simp_all
    from "1.IH" [OF True this]
    have ih: "- 1022 \<le> down_exp a e" "down_exp a e \<le> e - 1"
      "2 * a < 2 powi (down_exp a e - (e - 1) + 1)"
      "- 1022 < down_exp a e \<longrightarrow> 2 powi (down_exp a e - (e - 1)) \<le> 2 * a"
      by (simp_all add: step)
    have p: "(2::real) powi (down_exp a e - (e - 1) + 1) = 2 * 2 powi (down_exp a e - e + 1)"
      using power_int_add_1 [of "2::real" "down_exp a e - e + 1"] by (simp add: algebra_simps)
    have p': "(2::real) powi (down_exp a e - (e - 1)) = 2 * 2 powi (down_exp a e - e)"
      using power_int_add_1 [of "2::real" "down_exp a e - e"] by (simp add: algebra_simps)
    from ih show ?thesis
      unfolding p p' by auto
  next
    case False
    then have stop: "down_exp a e = e"
      by (subst down_exp.simps) auto
    with False "1.prems" show ?thesis by auto
  qed
qed

lemma exponent_spec_conj:
  assumes "0 < a"
  shows "- 1022 \<le> exponent a \<and> exponent a \<le> 1024
         \<and> (exponent a < 1024 \<longrightarrow> a < 2 powi (exponent a + 1))
         \<and> (- 1022 < exponent a \<longrightarrow> 2 powi exponent a \<le> a)"
proof (cases "1 \<le> a")
  case True
  from up_exp_spec [OF True, of 0] True show ?thesis
    by (simp add: exponent_def)
next
  case False
  then have "a < 2" by simp
  from down_exp_spec [OF assms this, of 0] False show ?thesis
    by (simp add: exponent_def)
qed

lemma exponent_spec:
  assumes "0 < a"
  shows "- 1022 \<le> exponent a" and "exponent a \<le> 1024"
    and "exponent a < 1024 \<Longrightarrow> a < 2 powi (exponent a + 1)"
    and "- 1022 < exponent a \<Longrightarrow> 2 powi exponent a \<le> a"
  using exponent_spec_conj [OF assms] by simp_all

lemma exponent_mono:
  assumes "0 < a" and "a \<le> b"
  shows "exponent a \<le> exponent b"
proof (rule ccontr)
  assume "\<not> exponent a \<le> exponent b"
  then have lt: "exponent b < exponent a" by simp
  from assms have b: "0 < b" by simp
  from lt exponent_spec(1) [OF b] have "- 1022 < exponent a" by simp
  from exponent_spec(4) [OF assms(1) this] have 1: "2 powi exponent a \<le> a" .
  from lt exponent_spec(2) [OF assms(1)] have "exponent b < 1024" by simp
  from exponent_spec(3) [OF b this] have 2: "b < 2 powi (exponent b + 1)" .
  from lt have "(2::real) powi (exponent b + 1) \<le> 2 powi exponent a"
    by (intro power_int_increasing) simp_all
  with 1 2 assms(2) show False by simp
qed

lemma round_magnitude_nonneg: "0 < a \<Longrightarrow> 0 \<le> round_magnitude a"
proof -
  assume "0 < a"
  then have "0 \<le> a / 2 powi (exponent a - 52)" by simp
  then have "round_half_even 0 \<le> round_half_even (a / 2 powi (exponent a - 52))"
    by (rule rhe_mono)
  then show ?thesis
    using rhe_of_int [of 0] by (simp add: round_magnitude_def Let_def)
qed

lemma round_magnitude_upper:
  assumes "0 < a" and "exponent a < 1024"
  shows "round_magnitude a \<le> 2 powi (exponent a + 1)"
proof -
  let ?ulp = "(2::real) powi (exponent a - 52)"
  have ulp: "0 < ?ulp" by simp
  have split: "(2::real) powi (exponent a + 1) = of_int (2 ^ 53) * ?ulp"
    using power_int_add [of "2::real" "exponent a - 52" 53] by (simp add: algebra_simps)
  from exponent_spec(3) [OF assms] have "a < of_int (2 ^ 53) * ?ulp"
    by (simp only: split)
  then have "a / ?ulp \<le> of_int (2 ^ 53)"
    using ulp by (simp add: field_simps)
  then have "round_half_even (a / ?ulp) \<le> round_half_even (of_int (2 ^ 53))"
    by (rule rhe_mono)
  then have "round_half_even (a / ?ulp) \<le> 2 ^ 53"
    by (simp only: rhe_of_int)
  then have "(of_int (round_half_even (a / ?ulp)) :: real) \<le> of_int (2 ^ 53)"
    by (simp only: of_int_le_iff)
  then have "of_int (round_half_even (a / ?ulp)) * ?ulp \<le> of_int (2 ^ 53) * ?ulp"
    using ulp by (simp only: mult_le_cancel_right_pos)
  then show ?thesis
    by (simp only: split round_magnitude_def Let_def)
qed

lemma round_magnitude_lower:
  assumes "0 < a" and "- 1022 < exponent a"
  shows "2 powi exponent a \<le> round_magnitude a"
proof -
  let ?ulp = "(2::real) powi (exponent a - 52)"
  have ulp: "0 < ?ulp" by simp
  have split: "(2::real) powi exponent a = of_int (2 ^ 52) * ?ulp"
    using power_int_add [of "2::real" "exponent a - 52" 52] by (simp add: algebra_simps)
  from exponent_spec(4) [OF assms] have "of_int (2 ^ 52) * ?ulp \<le> a"
    by (simp only: split)
  then have "of_int (2 ^ 52) \<le> a / ?ulp"
    using ulp by (simp add: field_simps)
  then have "round_half_even (of_int (2 ^ 52)) \<le> round_half_even (a / ?ulp)"
    by (rule rhe_mono)
  then have "2 ^ 52 \<le> round_half_even (a / ?ulp)"
    by (simp only: rhe_of_int)
  then have "(of_int (2 ^ 52) :: real) \<le> of_int (round_half_even (a / ?ulp))"
    by (simp only: of_int_le_iff)
  then have "of_int (2 ^ 52) * ?ulp \<le> of_int (round_half_even (a / ?ulp)) * ?ulp"
    using ulp by (simp only: mult_le_cancel_right_pos)
  then show ?thesis
    by (simp only: split round_magnitude_def Let_def)
qed

lemma round_magnitude_mono:
  assumes "0 < a" and "a \<le> b"
  shows "round_magnitude a \<le> round_magnitude b"
proof (cases "exponent a = exponent b")
  case True
  let ?ulp = "(2::real) powi (exponent b - 52)"
  have ulp: "0 < ?ulp" by simp
  from assms(2) ulp have "a / ?ulp \<le> b / ?ulp"
    by (simp add: divide_right_mono)
  then have "round_half_even (a / ?ulp) \<le> round_half_even (b / ?ulp)"
    by (rule rhe_mono)
  then have "(of_int (round_half_even (a / ?ulp)) :: real) * ?ulp
             \<le> of_int (round_half_even (b / ?ulp)) * ?ulp"
    using ulp by (simp only: mult_le_cancel_right_pos of_int_le_iff)
  then show ?thesis
    by (simp only: round_magnitude_def Let_def True)
next
  case False
  from assms have b: "0 < b" by simp
  from False exponent_mono [OF assms] have lt: "exponent a < exponent b" by simp
  with exponent_spec(2) [OF b] have "exponent a < 1024" by simp
  from round_magnitude_upper [OF assms(1) this]
  have 1: "round_magnitude a \<le> 2 powi (exponent a + 1)" .
  from lt exponent_spec(1) [OF assms(1)] have "- 1022 < exponent b" by simp
  from round_magnitude_lower [OF b this]
  have 2: "2 powi exponent b \<le> round_magnitude b" .
  from lt have "(2::real) powi (exponent a + 1) \<le> 2 powi exponent b"
    by (intro power_int_increasing) simp_all
  with 1 2 show ?thesis by simp
qed

lemma round64_not_NaN [simp]: "round64 r \<noteq> NotANumber"
  by (simp add: round64_def Let_def)

lemma js_le_NegZero [simp]:
  "js_le NegZero x = js_le (Number 0) x"
  "js_le x NegZero = js_le x (Number 0)"
  by (simp_all add: js_le_def)

lemma round64_mono:
  assumes "r \<le> r'"
  shows "js_le (round64 r) (round64 r')"
proof -
  have nn: "0 \<le> round_magnitude \<bar>x\<bar>" if "x \<noteq> 0" for x
    using that by (intro round_magnitude_nonneg) simp
  consider "r = 0 \<or> r' = 0 \<or> (r < 0 \<and> 0 < r')" | "0 < r" | "r' < 0"
    using assms by linarith
  then show ?thesis
  proof cases
    case 1
    with assms nn [of r] nn [of r'] show ?thesis
      by (auto simp add: round64_def Let_def js_le_def)
  next
    case 2
    with assms have "round_magnitude \<bar>r\<bar> \<le> round_magnitude \<bar>r'\<bar>"
      by (intro round_magnitude_mono) simp_all
    with 2 assms nn [of r] nn [of r'] show ?thesis
      by (auto simp add: round64_def Let_def js_le_def)
  next
    case 3
    with assms have "round_magnitude \<bar>r'\<bar> \<le> round_magnitude \<bar>r\<bar>"
      by (intro round_magnitude_mono) simp_all
    with 3 assms nn [of r] nn [of r'] show ?thesis
      by (auto simp add: round64_def Let_def js_le_def)
  qed
qed

subsection \<open>The four operations of the scale are monotone\<close>

lemma round64_0 [simp]: "round64 0 = Number 0"
  by (simp add: round64_def)

lemma js_le_round64_zero:
  "0 \<le> r \<Longrightarrow> js_le (Number 0) (round64 r)"
  "r \<le> 0 \<Longrightarrow> js_le (round64 r) (Number 0)"
  using round64_mono [of 0 r] round64_mono [of r 0] by simp_all

lemma js_le_round64_inf [simp]:
  "js_le (round64 r) PlusInfinity"
  "js_le MinusInfinity (round64 r)"
  by (simp_all add: js_le_def)

lemma max_minus_min: "sub64 (Number 1.5) (Number (- 1.5)) = Number 3"
  by (simp add: sub64_def round64_def round_magnitude_def exponent_def up_exp.simps
        round_half_even_def Let_def)

lemma shift_stage:
  "sub64 v (Number (- (3 / 2))) =
     (case v of
        Number r \<Rightarrow> round64 (r + 3 / 2)
      | NegZero \<Rightarrow> round64 (0 + 3 / 2)
      | PlusInfinity \<Rightarrow> PlusInfinity
      | MinusInfinity \<Rightarrow> MinusInfinity
      | NotANumber \<Rightarrow> NotANumber)"
  by (cases v) (simp_all add: sub64_def)

lemma divide_stage:
  "div64 x (Number 3) =
     (case x of
        Number r \<Rightarrow> round64 (r / 3)
      | NegZero \<Rightarrow> NegZero
      | PlusInfinity \<Rightarrow> PlusInfinity
      | MinusInfinity \<Rightarrow> MinusInfinity
      | NotANumber \<Rightarrow> NotANumber)"
  by (cases x) (simp_all add: div64_def is_inf_def is_zero_def signed_inf_def signed_zero_def)

lemma scale_stage:
  "mul64 x (Number 100) =
     (case x of
        Number r \<Rightarrow> round64 (r * 100)
      | NegZero \<Rightarrow> NegZero
      | PlusInfinity \<Rightarrow> PlusInfinity
      | MinusInfinity \<Rightarrow> MinusInfinity
      | NotANumber \<Rightarrow> NotANumber)"
  by (cases x)
     (simp_all add: mul64_def is_inf_def is_zero_def signed_inf_def signed_zero_def)

lemma flip_stage:
  "sub64 (Number 100) x =
     (case x of
        Number r \<Rightarrow> round64 (100 - r)
      | NegZero \<Rightarrow> round64 (100 - 0)
      | PlusInfinity \<Rightarrow> MinusInfinity
      | MinusInfinity \<Rightarrow> PlusInfinity
      | NotANumber \<Rightarrow> NotANumber)"
  by (cases x) (simp_all add: sub64_def)

lemma rising_stage:
  assumes f: "\<And>r r'. r \<le> r' \<Longrightarrow> f r \<le> f r'"
    and num: "\<And>r. F (Number r) = round64 (f r)"
    and zero: "F NegZero = round64 (f 0) \<or> F NegZero = NegZero \<and> f 0 = 0"
    and inf: "F PlusInfinity = PlusInfinity" "F MinusInfinity = MinusInfinity"
    and le: "js_le x y"
  shows "js_le (F x) (F y)"
proof -
  have z: "js_le (F NegZero) d = js_le (round64 (f 0)) d"
          "js_le d (F NegZero) = js_le d (round64 (f 0))" for d
    using zero by auto
  from le show ?thesis
    by (cases x; cases y)
       (auto simp add: num z inf js_le_def [of "Number _" "Number _"] js_le_def [of _ NotANumber]
          js_le_def [of NotANumber] js_le_def [of PlusInfinity] js_le_def [of _ MinusInfinity]
          js_le_def [of "Number _" PlusInfinity] js_le_def [of MinusInfinity "Number _"]
          intro!: round64_mono f)
qed

lemma falling_stage:
  assumes f: "\<And>r r'. r \<le> r' \<Longrightarrow> f r' \<le> f r"
    and num: "\<And>r. F (Number r) = round64 (f r)"
    and zero: "F NegZero = round64 (f 0)"
    and inf: "F PlusInfinity = MinusInfinity" "F MinusInfinity = PlusInfinity"
    and le: "js_le x y"
  shows "js_le (F y) (F x)"
  using le
  by (cases x; cases y)
     (auto simp add: num zero inf js_le_def [of "Number _" "Number _"] js_le_def [of _ NotANumber]
        js_le_def [of NotANumber] js_le_def [of PlusInfinity] js_le_def [of _ MinusInfinity]
        js_le_def [of "Number _" PlusInfinity] js_le_def [of MinusInfinity "Number _"]
        intro!: round64_mono f)

lemma yScale_double_stages:
  "yScale_double v =
     sub64 (Number 100) (mul64 (div64 (sub64 v (Number (- (3 / 2)))) (Number 3)) (Number 100))"
  using max_minus_min by (simp add: yScale_double_def GRAPH_HEIGHT_def Let_def)

lemma yScale_double_mono:
  assumes "js_le v1 v2"
  shows "js_le (yScale_double v2) (yScale_double v1)"
proof -
  have 1: "js_le (sub64 v1 (Number (- (3 / 2)))) (sub64 v2 (Number (- (3 / 2))))"
    by (rule rising_stage [where f = "\<lambda>r. r + 3 / 2", OF _ _ _ _ _ assms])
       (simp_all add: shift_stage)
  have 2: "js_le (div64 x (Number 3)) (div64 y (Number 3))" if "js_le x y" for x y
    by (rule rising_stage [where f = "\<lambda>r. r / 3", OF _ _ _ _ _ that])
       (simp_all add: divide_stage)
  have 3: "js_le (mul64 x (Number 100)) (mul64 y (Number 100))" if "js_le x y" for x y
    by (rule rising_stage [where f = "\<lambda>r. r * 100", OF _ _ _ _ _ that])
       (simp_all add: scale_stage)
  have 4: "js_le (sub64 (Number 100) y) (sub64 (Number 100) x)" if "js_le x y" for x y
    by (rule falling_stage [where f = "\<lambda>r. 100 - r", OF _ _ _ _ _ that])
       (simp_all add: flip_stage)
  from 4 [OF 3 [OF 2 [OF 1]]] show ?thesis
    by (simp only: yScale_double_stages)
qed

subsection \<open>The distance to the affine map\<close>

lemma round_magnitude_error:
  assumes "0 < a"
  shows "\<bar>round_magnitude a - a\<bar> \<le> 2 powi (exponent a - 53)"
proof -
  let ?ulp = "(2::real) powi (exponent a - 52)"
  have ulp: "0 < ?ulp" by simp
  have half: "(2::real) powi (exponent a - 53) = ?ulp / 2"
    using power_int_add_1 [of "2::real" "exponent a - 53"] by (simp add: algebra_simps)
  have "round_magnitude a - a = (of_int (round_half_even (a / ?ulp)) - a / ?ulp) * ?ulp"
    using ulp by (simp add: round_magnitude_def Let_def field_simps)
  then have "\<bar>round_magnitude a - a\<bar> = \<bar>of_int (round_half_even (a / ?ulp)) - a / ?ulp\<bar> * ?ulp"
    using ulp by (simp add: abs_mult)
  also have "\<dots> \<le> 1 / 2 * ?ulp"
    using rhe_error [of "a / ?ulp"] ulp by (intro mult_right_mono) simp_all
  finally show ?thesis by (simp add: half)
qed

lemma round64_error:
  assumes "\<bar>x\<bar> < 2 powi (E + 1)" and "- 1022 \<le> E" and "E < 1023"
  shows "finite_double (round64 x) \<and> \<bar>val (round64 x) - x\<bar> \<le> 2 powi (E - 53)"
proof (cases "x = 0")
  case True
  then show ?thesis by (simp add: finite_double_def)
next
  case False
  let ?a = "\<bar>x\<bar>"
  from False have a: "0 < ?a" by simp
  have eE: "exponent ?a \<le> E"
  proof (rule ccontr)
    assume "\<not> exponent ?a \<le> E"
    then have lt: "E + 1 \<le> exponent ?a" by simp
    with assms(2) have "- 1022 < exponent ?a" by simp
    from exponent_spec(4) [OF a this] have "2 powi exponent ?a \<le> ?a" .
    moreover from lt have "(2::real) powi (E + 1) \<le> 2 powi exponent ?a"
      by (intro power_int_increasing) simp_all
    ultimately show False using assms(1) by simp
  qed
  with assms(3) have "exponent ?a < 1024" by simp
  from round_magnitude_upper [OF a this]
  have "round_magnitude ?a \<le> 2 powi (exponent ?a + 1)" .
  also from eE assms(3) have "(2::real) powi (exponent ?a + 1) \<le> 2 powi 1023"
    by (intro power_int_increasing) simp_all
  finally have small: "round_magnitude ?a < 2 ^ 1024" by simp
  have "\<bar>round_magnitude ?a - ?a\<bar> \<le> 2 powi (exponent ?a - 53)"
    using a by (rule round_magnitude_error)
  also from eE have "(2::real) powi (exponent ?a - 53) \<le> 2 powi (E - 53)"
    by (intro power_int_increasing) simp_all
  finally have err: "\<bar>round_magnitude ?a - ?a\<bar> \<le> 2 powi (E - 53)" .
  from small err False show ?thesis
    by (auto simp add: round64_def Let_def finite_double_def)
qed


lemma finite_double_val:
  "finite_double d \<Longrightarrow> d = Number (val d) \<or> d = NegZero"
  by (cases d) (simp_all add: finite_double_def)

lemma abs_error_bounds:
  fixes x y e :: real
  shows "\<bar>x - y\<bar> \<le> e \<Longrightarrow> y - e \<le> x \<and> x \<le> y + e"
  by linarith

lemma stage_value:
  assumes "finite_double x"
    and num: "\<And>r. F (Number r) = round64 (f r)"
    and zero: "F NegZero = round64 (f 0) \<or> F NegZero = NegZero \<and> f 0 = 0"
    and fin: "finite_double (round64 (f (val x)))"
  shows "finite_double (F x) \<and> val (F x) = val (round64 (f (val x)))"
proof (cases x)
  case (Number r)
  with num fin show ?thesis by simp
next
  case NegZero
  with zero fin show ?thesis by (auto simp add: finite_double_def dest: sym)
qed (use assms(1) in \<open>simp_all add: finite_double_def\<close>)

lemma yScale_double_error:
  assumes "\<bar>r\<bar> \<le> 1000"
  shows "finite_double (yScale_double (Number r))
         \<and> \<bar>val (yScale_double (Number r)) - yScale r\<bar> \<le> 1 / 2 ^ 36"
proof -
  from assms have r: "- 1000 \<le> r" "r \<le> 1000" by linarith+
  let ?x1 = "round64 (r + 3 / 2)"
  have "\<bar>r + 3 / 2\<bar> < 2 powi (9 + 1)" using r by (simp add: abs_less_iff)
  from round64_error [OF this]
  have f1: "finite_double ?x1" and "\<bar>val ?x1 - (r + 3 / 2)\<bar> \<le> 2 powi (9 - 53)"
    by simp_all
  from abs_error_bounds [OF this(2)]
  have e1: "r + 3 / 2 - 1 / 2 ^ 44 \<le> val ?x1" "val ?x1 \<le> r + 3 / 2 + 1 / 2 ^ 44"
    by simp_all
  let ?x2 = "div64 ?x1 (Number 3)"
  have "\<bar>val ?x1 / 3\<bar> < 2 powi (8 + 1)" using r e1 by (simp add: abs_less_iff)
  from round64_error [OF this]
  have f2': "finite_double (round64 (val ?x1 / 3))"
    and e2': "\<bar>val (round64 (val ?x1 / 3)) - val ?x1 / 3\<bar> \<le> 2 powi (8 - 53)"
    by simp_all
  have "finite_double ?x2 \<and> val ?x2 = val (round64 (val ?x1 / 3))"
    by (rule stage_value [where f = "\<lambda>r. r / 3", OF f1 _ _ f2']) (simp_all add: divide_stage)
  with e2' have f2: "finite_double ?x2" and "\<bar>val ?x2 - val ?x1 / 3\<bar> \<le> 2 powi (8 - 53)"
    by simp_all
  from abs_error_bounds [OF this(2)]
  have e2: "val ?x1 / 3 - 1 / 2 ^ 45 \<le> val ?x2" "val ?x2 \<le> val ?x1 / 3 + 1 / 2 ^ 45"
    by simp_all
  let ?x3 = "mul64 ?x2 (Number 100)"
  have "\<bar>val ?x2 * 100\<bar> < 2 powi (15 + 1)" using r e1 e2 by (simp add: abs_less_iff)
  from round64_error [OF this]
  have f3': "finite_double (round64 (val ?x2 * 100))"
    and e3': "\<bar>val (round64 (val ?x2 * 100)) - val ?x2 * 100\<bar> \<le> 2 powi (15 - 53)"
    by simp_all
  have "finite_double ?x3 \<and> val ?x3 = val (round64 (val ?x2 * 100))"
    by (rule stage_value [where f = "\<lambda>r. r * 100", OF f2 _ _ f3']) (simp_all add: scale_stage)
  with e3' have f3: "finite_double ?x3" and "\<bar>val ?x3 - val ?x2 * 100\<bar> \<le> 2 powi (15 - 53)"
    by simp_all
  from abs_error_bounds [OF this(2)]
  have e3: "val ?x2 * 100 - 1 / 2 ^ 38 \<le> val ?x3" "val ?x3 \<le> val ?x2 * 100 + 1 / 2 ^ 38"
    by simp_all
  let ?x4 = "sub64 (Number 100) ?x3"
  have "\<bar>100 - val ?x3\<bar> < 2 powi (15 + 1)" using r e1 e2 e3 by (simp add: abs_less_iff)
  from round64_error [OF this]
  have f4': "finite_double (round64 (100 - val ?x3))"
    and e4': "\<bar>val (round64 (100 - val ?x3)) - (100 - val ?x3)\<bar> \<le> 2 powi (15 - 53)"
    by simp_all
  have "finite_double ?x4 \<and> val ?x4 = val (round64 (100 - val ?x3))"
    by (rule stage_value [where f = "\<lambda>r. 100 - r", OF f3 _ _ f4']) (simp_all add: flip_stage)
  with e4' have f4: "finite_double ?x4" and "\<bar>val ?x4 - (100 - val ?x3)\<bar> \<le> 2 powi (15 - 53)"
    by simp_all
  from abs_error_bounds [OF this(2)]
  have e4: "100 - val ?x3 - 1 / 2 ^ 38 \<le> val ?x4" "val ?x4 \<le> 100 - val ?x3 + 1 / 2 ^ 38"
    by simp_all
  have y: "yScale_double (Number r) = ?x4"
    by (simp add: yScale_double_stages shift_stage)
  have "yScale r - 1 / 2 ^ 36 \<le> val ?x4" and "val ?x4 \<le> yScale r + 1 / 2 ^ 36"
    using e1 e2 e3 e4 by (simp_all add: yScale_def GRAPH_HEIGHT_def Let_def) argo+
  then have "\<bar>val ?x4 - yScale r\<bar> \<le> 1 / 2 ^ 36"
    unfolding abs_le_iff by linarith
  with f4 y show ?thesis by simp
qed

subsection \<open>Values of the scale\<close>

lemma yScale_double_at_min: "yScale_double (Number (- 1.5)) = Number 100"
  by (simp add: double_eval)
lemma yScale_double_at_max: "yScale_double (Number 1.5) = Number 0"
  by (simp add: double_eval)
lemma yScale_double_at_zero: "yScale_double (Number 0) = Number 50"
  by (simp add: double_eval)
lemma yScale_double_tiny: "yScale_double (Number (1 / 2 ^ 60)) = Number 50"
  by (simp add: double_eval)
lemma yScale_double_next_above_max: "yScale_double (Number (3 / 2 + 1 / 2 ^ 52)) = Number 0"
  by (simp add: double_eval)
lemma yScale_double_at_3: "yScale_double (Number 3) = Number (- 50)"
  by (simp add: double_eval)
lemma yScale_double_at_minus_3: "yScale_double (Number (- 3)) = Number 150"
  by (simp add: double_eval)
lemma yScale_double_at_1: "yScale_double (Number 1) = Number (586406201480533 / 35184372088832)"
  by (simp add: double_eval)
lemma round64_tiny: "round64 (1 / 2 ^ 60) = Number (1 / 2 ^ 60)"
  by (simp add: double_eval)
lemma round64_next_above_max: "round64 (3 / 2 + 1 / 2 ^ 52) = Number (3 / 2 + 1 / 2 ^ 52)"
  by (simp add: double_eval)

lemma round64_1: "round64 1 = Number 1"
  by (simp add: double_eval)

lemma js_lt_le: "js_lt a b \<Longrightarrow> js_le a b"
  by (auto simp add: js_lt_def js_le_def split: if_splits)

lemma js_le_refl_iff: "js_le a a \<longleftrightarrow> a \<noteq> NotANumber"
  by (simp add: js_le_def)

lemma yScale_affine: "yScale r = GRAPH_HEIGHT / 2 - GRAPH_HEIGHT / 3 * r"
  by (simp add: yScale_def GRAPH_HEIGHT_def Let_def field_simps)

text \<open>
  Claim C9, in the arithmetic of the source. \<open>yScale\<close> maps \<open>-1.5\<close> to \<open>GRAPH_HEIGHT\<close>,
  \<open>1.5\<close> to \<open>0\<close> and \<open>0\<close> to \<open>GRAPH_HEIGHT / 2\<close>, exactly. It is decreasing in the weak
  sense: \<open>v1 \<le> v2\<close> gives \<open>yScale v2 \<le> yScale v1\<close>. A value below \<open>-1.5\<close> maps to
  \<open>GRAPH_HEIGHT\<close> or more and a value above \<open>1.5\<close> to \<open>0\<close> or less, and nothing is
  clamped: up to \<open>-3\<close> the result is at least \<open>GRAPH_HEIGHT + GRAPH_HEIGHT / 2\<close>, from \<open>3\<close>
  on at most \<open>- GRAPH_HEIGHT / 2\<close>. For a value of magnitude at most \<open>1000\<close> the result is
  finite and within \<open>1 / 2 ^ 36\<close> of the affine map
  \<open>GRAPH_HEIGHT / 2 - GRAPH_HEIGHT / 3 * v\<close>.
\<close>
theorem yScale_double_decreasing:
  "yScale_double (Number (- 1.5)) = Number GRAPH_HEIGHT
   \<and> yScale_double (Number 1.5) = Number 0
   \<and> yScale_double (Number 0) = Number (GRAPH_HEIGHT / 2)
   \<and> (\<forall>v1 v2. js_le v1 v2 \<longrightarrow> js_le (yScale_double v2) (yScale_double v1))
   \<and> (\<forall>v. js_lt v (Number (- 1.5)) \<longrightarrow> js_le (Number GRAPH_HEIGHT) (yScale_double v))
   \<and> (\<forall>v. js_lt (Number 1.5) v \<longrightarrow> js_le (yScale_double v) (Number 0))
   \<and> (\<forall>v. js_le v (Number (- 3)) \<longrightarrow> js_le (Number (GRAPH_HEIGHT + GRAPH_HEIGHT / 2)) (yScale_double v))
   \<and> (\<forall>v. js_le (Number 3) v \<longrightarrow> js_le (yScale_double v) (Number (- (GRAPH_HEIGHT / 2))))
   \<and> (\<forall>r. \<bar>r\<bar> \<le> 1000 \<longrightarrow>
         finite_double (yScale_double (Number r))
         \<and> \<bar>val (yScale_double (Number r)) - (GRAPH_HEIGHT / 2 - GRAPH_HEIGHT / 3 * r)\<bar> \<le> 1 / 2 ^ 36)"
proof -
  have low: "js_le (Number GRAPH_HEIGHT) (yScale_double v)" if "js_lt v (Number (- 1.5))" for v
    using yScale_double_mono [OF js_lt_le [OF that]] unfolding yScale_double_at_min GRAPH_HEIGHT_def .
  have high: "js_le (yScale_double v) (Number 0)" if "js_lt (Number 1.5) v" for v
    using yScale_double_mono [OF js_lt_le [OF that]] unfolding yScale_double_at_max .
  have far_low: "js_le (Number (GRAPH_HEIGHT + GRAPH_HEIGHT / 2)) (yScale_double v)"
    if "js_le v (Number (- 3))" for v
    using yScale_double_mono [OF that] unfolding yScale_double_at_minus_3 GRAPH_HEIGHT_def by simp
  have far_high: "js_le (yScale_double v) (Number (- (GRAPH_HEIGHT / 2)))"
    if "js_le (Number 3) v" for v
    using yScale_double_mono [OF that] unfolding yScale_double_at_3 GRAPH_HEIGHT_def by simp
  have near: "finite_double (yScale_double (Number r))
         \<and> \<bar>val (yScale_double (Number r)) - (GRAPH_HEIGHT / 2 - GRAPH_HEIGHT / 3 * r)\<bar> \<le> 1 / 2 ^ 36"
    if "\<bar>r\<bar> \<le> 1000" for r
    using yScale_double_error [OF that] by (simp only: yScale_affine)
  have anchors: "yScale_double (Number (- 1.5)) = Number GRAPH_HEIGHT"
    "yScale_double (Number 1.5) = Number 0"
    "yScale_double (Number 0) = Number (GRAPH_HEIGHT / 2)"
    unfolding yScale_double_at_min yScale_double_at_max yScale_double_at_zero GRAPH_HEIGHT_def by simp_all
  from anchors yScale_double_mono low high far_low far_high near show ?thesis
    by (intro conjI allI impI) blast+
qed

theorem yScale_double_decreasing_witness:
  "js_le (Number 0) (Number 1) \<and> js_le (yScale_double (Number 1)) (yScale_double (Number 0))
   \<and> js_lt (Number (- 2)) (Number (- 1.5)) \<and> js_le (Number GRAPH_HEIGHT) (yScale_double (Number (- 2)))
   \<and> js_lt (Number 1.5) (Number 2) \<and> js_le (yScale_double (Number 2)) (Number 0)
   \<and> js_le (Number (- 4)) (Number (- 3))
   \<and> js_le (Number (GRAPH_HEIGHT + GRAPH_HEIGHT / 2)) (yScale_double (Number (- 4)))
   \<and> js_le (Number 3) PlusInfinity
   \<and> js_le (yScale_double PlusInfinity) (Number (- (GRAPH_HEIGHT / 2)))
   \<and> \<bar>1 :: real\<bar> \<le> 1000
   \<and> finite_double (yScale_double (Number 1))
   \<and> \<bar>val (yScale_double (Number 1)) - (GRAPH_HEIGHT / 2 - GRAPH_HEIGHT / 3 * 1)\<bar> \<le> 1 / 2 ^ 36"
proof -
  note T = yScale_double_decreasing
  note down = T [THEN conjunct2, THEN conjunct2, THEN conjunct2, THEN conjunct1, THEN spec, THEN spec, THEN mp]
  note below = T [THEN conjunct2, THEN conjunct2, THEN conjunct2, THEN conjunct2, THEN conjunct1,
      THEN spec, THEN mp]
  note above = T [THEN conjunct2, THEN conjunct2, THEN conjunct2, THEN conjunct2, THEN conjunct2,
      THEN conjunct1, THEN spec, THEN mp]
  note far_below = T [THEN conjunct2, THEN conjunct2, THEN conjunct2, THEN conjunct2, THEN conjunct2,
      THEN conjunct2, THEN conjunct1, THEN spec, THEN mp]
  note far_above = T [THEN conjunct2, THEN conjunct2, THEN conjunct2, THEN conjunct2, THEN conjunct2,
      THEN conjunct2, THEN conjunct2, THEN conjunct1, THEN spec, THEN mp]
  note near = T [THEN conjunct2, THEN conjunct2, THEN conjunct2, THEN conjunct2, THEN conjunct2,
      THEN conjunct2, THEN conjunct2, THEN conjunct2, THEN spec, THEN mp]
  have 1: "js_le (Number 0) (Number 1)"
    and 2: "js_lt (Number (- 2)) (Number (- 1.5))"
    and 3: "js_lt (Number 1.5) (Number 2)"
    and 4: "js_le (Number (- 4)) (Number (- 3))"
    and 5: "js_le (Number 3) PlusInfinity"
    and 6: "\<bar>1 :: real\<bar> \<le> 1000"
    by (simp_all add: js_le_def js_lt_def)
  from 1 down [OF 1] 2 below [OF 2] 3 above [OF 3] 4 far_below [OF 4] 5 far_above [OF 5]
    6 near [OF 6, THEN conjunct1] near [OF 6, THEN conjunct2]
  show ?thesis
    by (intro conjI)
qed

text \<open>
  Claim C9 as stated fails in doubles. \<open>0\<close> and the double \<open>1 / 2 ^ 60\<close> above it both
  map to \<open>50\<close>, so the scale is not strictly decreasing. The double next above \<open>1.5\<close>
  maps to \<open>0\<close>, which is not outside \<open>[0, GRAPH_HEIGHT]\<close>. And \<open>1\<close> maps to
  \<open>586406201480533 / 2 ^ 45\<close>, not to the value \<open>50 / 3\<close> of the affine map.
\<close>
theorem yScale_double_not_strict_counterexample:
  "round64 (1 / 2 ^ 60) = Number (1 / 2 ^ 60)
   \<and> js_lt (Number 0) (Number (1 / 2 ^ 60))
   \<and> yScale_double (Number 0) = Number 50
   \<and> yScale_double (Number (1 / 2 ^ 60)) = Number 50
   \<and> \<not> js_lt (yScale_double (Number (1 / 2 ^ 60))) (yScale_double (Number 0))
   \<and> round64 (3 / 2 + 1 / 2 ^ 52) = Number (3 / 2 + 1 / 2 ^ 52)
   \<and> js_lt (Number 1.5) (Number (3 / 2 + 1 / 2 ^ 52))
   \<and> yScale_double (Number (3 / 2 + 1 / 2 ^ 52)) = Number 0
   \<and> \<not> js_lt (yScale_double (Number (3 / 2 + 1 / 2 ^ 52))) (Number 0)
   \<and> round64 1 = Number 1
   \<and> yScale_double (Number 1) = Number (586406201480533 / 35184372088832)
   \<and> Number (586406201480533 / 35184372088832) \<noteq> Number (GRAPH_HEIGHT / 2 - GRAPH_HEIGHT / 3 * 1)"
proof -
  have 1: "js_lt (Number 0) (Number (1 / 2 ^ 60))"
    and 2: "js_lt (Number 1.5) (Number (3 / 2 + 1 / 2 ^ 52))"
    and 3: "Number (586406201480533 / 35184372088832) \<noteq> Number (GRAPH_HEIGHT / 2 - GRAPH_HEIGHT / 3 * 1)"
    by (simp_all add: js_lt_def GRAPH_HEIGHT_def)
  have 4: "\<not> js_lt (yScale_double (Number (1 / 2 ^ 60))) (yScale_double (Number 0))"
    unfolding yScale_double_at_zero yScale_double_tiny by (simp add: js_lt_def)
  have 5: "\<not> js_lt (yScale_double (Number (3 / 2 + 1 / 2 ^ 52))) (Number 0)"
    unfolding yScale_double_next_above_max by (simp add: js_lt_def)
  from round64_tiny 1 yScale_double_at_zero yScale_double_tiny 4 round64_next_above_max 2 yScale_double_next_above_max 5 round64_1 yScale_double_at_1 3 show ?thesis
    by (intro conjI)
qed

end
